theory Spec2Isabelle
  imports Main "HOL-Library.Sublist"
begin

section \<open>Data model\<close>

text \<open>
  The component \<^verbatim>\<open>App\<close> of \<^verbatim>\<open>src/App.tsx\<close> holds four pieces of React state:
  the chat session handle, the list of messages, the loading flag and the error banner.
  A message is an object with the fields \<^verbatim>\<open>id\<close>, \<^verbatim>\<open>role\<close> and \<^verbatim>\<open>text\<close>; the
  fields \<^verbatim>\<open>id\<close> and \<^verbatim>\<open>text\<close> carry the suffix \<open>_msg\<close> here. The only roles the
  source writes are \<^verbatim>\<open>'user'\<close> and \<^verbatim>\<open>'model'\<close>.
\<close>

datatype role = user | model

record Message =
  id_msg :: string
  role :: role
  text_msg :: string

text \<open>
  The session handle is opaque (a value of the type parameter \<open>'c\<close>). A thrown
  JavaScript value is a \<open>js_error\<close>; a block of statements ends normally or by a throw.
\<close>

datatype js_error = JsError string

datatype completion = Normal | Throw js_error

record 'c app_state =
  chat :: "'c option"
  messages :: "Message list"
  isLoading :: bool
  error :: "string option"

text \<open>
  What \<^verbatim>\<open>chat.sendMessageStream\<close> answers is an input from the remote service: a
  finite sequence of chunks, each given by the string that \<^verbatim>\<open>fullResponse += chunk.text\<close>
  appends, and then either the end of the iteration or a throw. A request that is
  rejected before the first chunk is a stream without chunks that raises.
\<close>

datatype stream_end = Completes | Raises js_error

datatype stream = Stream (chunks: "string list") (ending: stream_end)

text \<open>
  A run of an operation of the component: how it settles, the calls of
  \<^verbatim>\<open>chat.sendMessageStream\<close> it made (handle and message), and the component state after
  each state update it performed, in order. React applies queued updates in the order
  of the calls, each functional updater receiving the result of the one before.
\<close>

record 'c run =
  settled :: completion
  requests :: "('c \<times> string) list"
  states :: "'c app_state list"

definition final_state :: "'c app_state \<Rightarrow> 'c run \<Rightarrow> 'c app_state" where
  "final_state s r = last (s # states r)"

section \<open>State setters\<close>

definition setChat :: "'c option \<Rightarrow> 'c app_state \<Rightarrow> 'c app_state" where
  "setChat v s = s\<lparr>chat := v\<rparr>"

definition setMessages :: "(Message list \<Rightarrow> Message list) \<Rightarrow> 'c app_state \<Rightarrow> 'c app_state" where
  "setMessages f s = s\<lparr>messages := f (messages s)\<rparr>"

definition setIsLoading :: "bool \<Rightarrow> 'c app_state \<Rightarrow> 'c app_state" where
  "setIsLoading v s = s\<lparr>isLoading := v\<rparr>"

definition setError :: "string option \<Rightarrow> 'c app_state \<Rightarrow> 'c app_state" where
  "setError v s = s\<lparr>error := v\<rparr>"

definition initial_state :: "'c app_state" where
  "initial_state = \<lparr>chat = None, messages = [], isLoading = False, error = None\<rparr>"

section \<open>Identifiers from the clock\<close>

text \<open>
  \<^verbatim>\<open>Date.now()\<close> is an integer number of milliseconds; \<open>toString\<close> is its decimal
  rendering, as \<^verbatim>\<open>Number.prototype.toString\<close> and a template literal produce it for
  an integer of that size. Nothing else enters an id: the clock is an input, and the
  code does not ask that two readings differ.
\<close>

definition digit :: "nat \<Rightarrow> char" where
  "digit d = ''0123456789'' ! (d mod 10)"

fun digits :: "nat \<Rightarrow> string" where
  "digits n = (if n < 10 then [digit n] else digits (n div 10) @ [digit (n mod 10)])"

declare digits.simps [simp del]

definition toString :: "int \<Rightarrow> string" where
  "toString i = (if i < 0 then CHR ''-'' # digits (nat (- i)) else digits (nat i))"

section \<open>Bootstrap\<close>

text \<open>
  The second effect of the component (lines 30 to 45). The call \<^verbatim>\<open>startChat()\<close> is given
  by its result: \<open>Inl e\<close> when it throws \<open>e\<close>, \<open>Inr c\<close> when it returns the handle \<open>c\<close>.
  The body of \<^verbatim>\<open>try\<close> is \<open>bootstrap_try\<close>, the handler is \<open>bootstrap_catch\<close>.
  \<^verbatim>\<open>console.error\<close> writes to the console only and changes no state.
\<close>

definition greeting :: Message where
  "greeting = \<lparr>id_msg = ''init'', role = model, text_msg = ''Hello! How can I assist you today?''\<rparr>"

definition bootstrap_try :: "js_error + 'c \<Rightarrow> 'c app_state \<Rightarrow> completion \<times> 'c app_state list" where
  "bootstrap_try startChat s =
     (case startChat of
        Inl e \<Rightarrow> (Throw e, [])
      | Inr chatInstance \<Rightarrow>
          (let s1 = setChat (Some chatInstance) s;
               s2 = setMessages (\<lambda>_. [greeting]) s1
           in (Normal, [s1, s2])))"

definition bootstrap_catch :: "js_error \<Rightarrow> 'c app_state \<Rightarrow> completion \<times> 'c app_state list" where
  "bootstrap_catch e s =
     (Normal,
      [setError (Some ''Failed to initialize the chat service. Please check your API key.'') s])"

definition bootstrap :: "js_error + 'c \<Rightarrow> 'c app_state \<Rightarrow> 'c run" where
  "bootstrap startChat s =
     (let (outcome, tried) = bootstrap_try startChat s;
          (caught, handling) =
            (case outcome of
               Normal \<Rightarrow> (Normal, [])
             | Throw e \<Rightarrow> bootstrap_catch e (last (s # tried)))
      in \<lparr>settled = caught, requests = [], states = tried @ handling\<rparr>)"

definition bootstrapped :: "'c \<Rightarrow> 'c app_state" where
  "bootstrapped c = final_state initial_state (bootstrap (Inr c) initial_state)"

section \<open>Submission and streaming\<close>

text \<open>
  The updater of lines 80 to 82 and 89 to 91: every message whose id is the placeholder's
  gets the given text, every other message is passed on as it is.
\<close>

definition rewrite_text :: "string \<Rightarrow> string \<Rightarrow> Message list \<Rightarrow> Message list" where
  "rewrite_text modelResponseId txt prevMessages =
     map (\<lambda>msg. if id_msg msg = modelResponseId then msg\<lparr>text_msg := txt\<rparr> else msg) prevMessages"

text \<open>
  The loop of lines 77 to 84 over the chunks that arrive. The accumulator
  \<^verbatim>\<open>fullResponse\<close> is one variable declared outside the loop (line 76), and the updater
  passed to \<^verbatim>\<open>setMessages\<close> (lines 79 to 83) refers to the variable: it writes what the
  variable holds when React runs the updater, not what it held when the updater was
  queued. When React runs a queued updater is an input: \<open>renders\<close> says, chunk by chunk,
  whether React runs the queued updaters before the next chunk is appended (no entry
  means it does). Updaters still queued when the loop is left run then, the accumulator
  holding all chunks that arrived.

  \<open>run_queued\<close> runs the queued updaters, all reading the same accumulator; the result
  of \<open>for_await\<close> is the state after each updater, in the order in which they were queued.
\<close>

fun run_queued :: "nat \<Rightarrow> string \<Rightarrow> string \<Rightarrow> 'c app_state \<Rightarrow> 'c app_state list" where
  "run_queued 0 modelResponseId fullResponse s = []"
| "run_queued (Suc queued) modelResponseId fullResponse s =
     (let s' = setMessages (rewrite_text modelResponseId fullResponse) s
      in s' # run_queued queued modelResponseId fullResponse s')"

fun for_await ::
  "string \<Rightarrow> string \<Rightarrow> nat \<Rightarrow> string list \<Rightarrow> bool list \<Rightarrow> 'c app_state \<Rightarrow> 'c app_state list" where
  "for_await modelResponseId fullResponse queued [] renders s =
     run_queued queued modelResponseId fullResponse s"
| "for_await modelResponseId fullResponse queued (chunk # rest) renders s =
     (let fullResponse' = fullResponse @ chunk;
          queued' = Suc queued
      in if (case renders of [] \<Rightarrow> True | render # _ \<Rightarrow> render)
         then (let ran = run_queued queued' modelResponseId fullResponse' s
               in ran @ for_await modelResponseId fullResponse' 0 rest (tl renders) (last (s # ran)))
         else for_await modelResponseId fullResponse' queued' rest (tl renders) s)"

definition try_block ::
  "string \<Rightarrow> stream \<Rightarrow> bool list \<Rightarrow> 'c app_state \<Rightarrow> completion \<times> 'c app_state list" where
  "try_block modelResponseId stream renders s =
     (let streaming = for_await modelResponseId [] 0 (chunks stream) renders s
      in case ending stream of
           Completes \<Rightarrow> (Normal, streaming)
         | Raises e \<Rightarrow> (Throw e, streaming))"

definition catch_block :: "string \<Rightarrow> js_error \<Rightarrow> 'c app_state \<Rightarrow> completion \<times> 'c app_state list" where
  "catch_block modelResponseId e s =
     (let s1 = setError (Some ''An error occurred while getting a response. Please try again.'') s;
          s2 = setMessages (rewrite_text modelResponseId ''Sorry, I encountered an error.'') s1
      in (Normal, [s1, s2]))"

text \<open>
  \<^verbatim>\<open>handleSendMessage\<close> (lines 53 to 96). The two readings of \<^verbatim>\<open>Date.now()\<close> (line 60
  for the user id, line 66 for the placeholder id), the stream the service answers with
  and the moments at which React runs the queued updaters of the loop (\<open>renders\<close>) are
  inputs; the handle is the one the component state holds when the handler is called.
  The body of \<^verbatim>\<open>try\<close> is \<open>try_block\<close>, the handler is \<open>catch_block\<close>, and the
  \<^verbatim>\<open>finally\<close> clause clears the loading flag on both paths. The promise the handler
  returns settles as the \<^verbatim>\<open>try\<close> statement completes: normally, or as the handler of a
  throw completes.
\<close>

definition handleSendMessage ::
  "bool list \<Rightarrow> int \<Rightarrow> int \<Rightarrow> stream \<Rightarrow> string \<Rightarrow> 'c app_state \<Rightarrow> 'c run" where
  "handleSendMessage renders now1 now2 stream userMessage s =
     (case chat s of
        None \<Rightarrow> \<lparr>settled = Normal, requests = [], states = []\<rparr>
      | Some c \<Rightarrow>
          (let s1 = setIsLoading True s;
               s2 = setError None s1;
               newUserMessage = \<lparr>id_msg = toString now1, role = user, text_msg = userMessage\<rparr>;
               s3 = setMessages (\<lambda>prevMessages. prevMessages @ [newUserMessage]) s2;
               modelResponseId = ''model-'' @ toString now2;
               s4 = setMessages (\<lambda>prevMessages. prevMessages @
                      [\<lparr>id_msg = modelResponseId, role = model, text_msg = ''''\<rparr>]) s3;
               (outcome, streaming) = try_block modelResponseId stream renders s4;
               s5 = last (s4 # streaming);
               (caught, handling) =
                 (case outcome of
                    Normal \<Rightarrow> (Normal, [])
                  | Throw e \<Rightarrow> catch_block modelResponseId e s5);
               s6 = last (s5 # handling);
               s7 = setIsLoading False s6
           in \<lparr>settled = caught, requests = [(c, userMessage)],
               states = [s1, s2, s3, s4] @ streaming @ handling @ [s7]\<rparr>))"

text \<open>A sequence of submissions, each run to its end before the next one starts.\<close>

record submission =
  rendered :: "bool list"
  at1 :: int
  at2 :: int
  reply :: stream
  input :: string

definition submit :: "submission \<Rightarrow> 'c app_state \<Rightarrow> 'c run" where
  "submit sb s = handleSendMessage (rendered sb) (at1 sb) (at2 sb) (reply sb) (input sb) s"

fun submit_all :: "submission list \<Rightarrow> 'c app_state \<Rightarrow> 'c app_state" where
  "submit_all [] s = s"
| "submit_all (sb # rest) s = submit_all rest (final_state s (submit sb s))"

fun submit_all_states :: "submission list \<Rightarrow> 'c app_state \<Rightarrow> 'c app_state list" where
  "submit_all_states [] s = []"
| "submit_all_states (sb # rest) s =
     states (submit sb s) @ submit_all_states rest (final_state s (submit sb s))"

text \<open>
  A session of the component: the initial state, the bootstrap, then the submissions one
  after the other. \<open>session_states\<close> lists every state the component goes through.
\<close>

definition session_states :: "js_error + 'c \<Rightarrow> submission list \<Rightarrow> 'c app_state list" where
  "session_states startChat subs =
     initial_state # states (bootstrap startChat initial_state) @
     submit_all_states subs (final_state initial_state (bootstrap startChat initial_state))"

section \<open>Observations used in the statements\<close>

text \<open>The ids and roles of the records of the store, in store order.\<close>

definition ids_and_roles :: "'c app_state \<Rightarrow> (string \<times> role) list" where
  "ids_and_roles s = map (\<lambda>msg. (id_msg msg, role msg)) (messages s)"

text \<open>The store of \<open>b\<close> is the store of \<open>a\<close> with records added at its end, as far as
  ids and roles go.\<close>

definition extends :: "'c app_state \<Rightarrow> 'c app_state \<Rightarrow> bool" where
  "extends a b = prefix (ids_and_roles a) (ids_and_roles b)"

text \<open>
  How many of the \<open>n\<close> chunks still to come have been appended to the accumulator when
  React runs each updater of the loop: first the updaters already queued, then the one of
  each chunk, in the order in which they are queued. It follows the case distinction of
  \<open>for_await\<close> on \<open>renders\<close>.
\<close>

fun read_points :: "nat \<Rightarrow> nat \<Rightarrow> bool list \<Rightarrow> nat list" where
  "read_points queued 0 renders = replicate queued 0"
| "read_points queued (Suc n) renders =
     (if (case renders of [] \<Rightarrow> True | render # _ \<Rightarrow> render)
      then replicate (Suc queued) 1 @ map Suc (read_points 0 n (tl renders))
      else map Suc (read_points (Suc queued) n (tl renders)))"

section \<open>Decimal rendering is injective\<close>

lemma digit_inj: "d < 10 \<Longrightarrow> d' < 10 \<Longrightarrow> digit d = digit d' \<Longrightarrow> d = d'"
proof -
  assume a: "d < 10" "d' < 10" "digit d = digit d'"
  have dist: "distinct ''0123456789''" by simp
  have len: "length ''0123456789'' = 10" by simp
  from a have "''0123456789'' ! d = ''0123456789'' ! d'" by (simp add: digit_def)
  with dist len a(1,2) show "d = d'"
    by (metis nth_eq_iff_index_eq)
qed

lemma digit_in: "digit d \<in> set ''0123456789''"
proof -
  have "d mod 10 < length ''0123456789''" by simp
  then show ?thesis unfolding digit_def by (rule nth_mem)
qed

lemma digits_not_Nil: "digits n \<noteq> []"
  by (subst digits.simps) simp

lemma digits_last: "last (digits n) = digit (n mod 10)"
  by (subst digits.simps) simp

lemma digits_butlast: "butlast (digits n) = (if n < 10 then [] else digits (n div 10))"
  by (subst digits.simps) simp

lemma digits_set: "set (digits n) \<subseteq> set ''0123456789''"
proof (induction n rule: digits.induct)
  case (1 n)
  show ?case
  proof (cases "n < 10")
    case True
    then show ?thesis using digit_in [of n] by (subst digits.simps) simp
  next
    case False
    then show ?thesis using 1 digit_in [of "n mod 10"] by (subst digits.simps) simp
  qed
qed

lemma digits_inj: "digits n = digits m \<Longrightarrow> n = m"
proof (induction n arbitrary: m rule: digits.induct)
  case (1 n)
  from "1.prems" have l: "digit (n mod 10) = digit (m mod 10)"
    by (metis digits_last)
  then have md: "n mod 10 = m mod 10"
    by (intro digit_inj) simp_all
  from "1.prems" have b: "butlast (digits n) = butlast (digits m)" by simp
  show ?case
  proof (cases "n < 10")
    case True
    with b digits_not_Nil [of "m div 10"] have "m < 10"
      by (auto simp: digits_butlast split: if_splits)
    with True md show ?thesis by simp
  next
    case False
    with b digits_not_Nil [of "n div 10"] have m: "\<not> m < 10"
      by (auto simp: digits_butlast split: if_splits)
    with False b have "digits (n div 10) = digits (m div 10)" by (simp add: digits_butlast)
    with False 1 have "n div 10 = m div 10" by blast
    with md show ?thesis by (metis div_mult_mod_eq)
  qed
qed

lemma hd_digits: "hd (digits n) \<in> set ''0123456789''"
  using digits_set [of n] digits_not_Nil [of n] hd_in_set by blast

lemma hd_toString: "hd (toString i) \<in> set ''-0123456789''"
  using hd_digits [of "nat i"] by (auto simp: toString_def)

lemma toString_inj: "toString i = toString j \<Longrightarrow> i = j"
proof -
  assume eq: "toString i = toString j"
  have neg: "CHR ''-'' # digits a \<noteq> digits b" for a b
  proof
    assume "CHR ''-'' # digits a = digits b"
    then have "hd (digits b) = CHR ''-''" by (metis list.sel(1))
    with hd_digits [of b] show False by simp
  qed
  show "i = j"
  proof (cases "i < 0")
    case True
    show ?thesis
    proof (cases "j < 0")
      case jn: True
      with True eq have "nat (- i) = nat (- j)" by (auto simp: toString_def dest: digits_inj)
      with True jn show ?thesis by simp
    next
      case False
      with True eq neg show ?thesis by (simp add: toString_def)
    qed
  next
    case False
    show ?thesis
    proof (cases "j < 0")
      case True
      with False eq neg [of "nat (- j)" "nat i"] show ?thesis by (simp add: toString_def)
    next
      case jp: False
      with False eq have "nat i = nat j" by (auto simp: toString_def dest: digits_inj)
      with False jp show ?thesis by simp
    qed
  qed
qed

lemma toString_not_model: "toString i \<noteq> ''model-'' @ t"
proof
  assume "toString i = ''model-'' @ t"
  then have "hd (toString i) = CHR ''m''" by simp
  with hd_toString [of i] show False by simp
qed

lemma toString_not_init: "toString i \<noteq> ''init''"
proof
  assume "toString i = ''init''"
  then have "hd (toString i) = CHR ''i''" by simp
  with hd_toString [of i] show False by simp
qed

section \<open>The updater and the loop\<close>

lemma rewrite_text_length: "length (rewrite_text m t xs) = length xs"
  by (simp add: rewrite_text_def)

lemma rewrite_text_nth:
  "i < length xs \<Longrightarrow> rewrite_text m t xs ! i =
     (if id_msg (xs ! i) = m then (xs ! i)\<lparr>text_msg := t\<rparr> else xs ! i)"
  by (simp add: rewrite_text_def)

lemma rewrite_text_append:
  "rewrite_text m t (xs @ ys) = rewrite_text m t xs @ rewrite_text m t ys"
  by (simp add: rewrite_text_def)

lemma rewrite_text_again: "rewrite_text m t' (rewrite_text m t xs) = rewrite_text m t' xs"
  by (induction xs) (simp_all add: rewrite_text_def)

lemma rewrite_text_absent: "m \<notin> id_msg ` set xs \<Longrightarrow> rewrite_text m t xs = xs"
  by (induction xs) (auto simp: rewrite_text_def)

lemma setMessages_rewrite_again:
  "setMessages (rewrite_text m t') (setMessages (rewrite_text m t) s) =
   setMessages (rewrite_text m t') s"
  by (simp add: setMessages_def rewrite_text_again)

lemma run_queued_closed:
  "run_queued q m t s = replicate q (setMessages (rewrite_text m t) s)"
  by (induction q arbitrary: s) (simp_all add: Let_def setMessages_rewrite_again)

lemma run_queued_last:
  "last (s # run_queued q m t s) = (if q = 0 then s else setMessages (rewrite_text m t) s)"
  by (cases q) (simp_all add: run_queued_closed del: run_queued.simps replicate.simps)

lemma read_points_length: "length (read_points q n rs) = q + n"
  by (induction n arbitrary: q rs) simp_all

lemma for_await_closed:
  "for_await m acc q cs rs s =
     map (\<lambda>r. setMessages (rewrite_text m (acc @ concat (take r cs))) s)
       (read_points q (length cs) rs)"
proof (induction cs arbitrary: acc q rs s)
  case Nil
  then show ?case by (simp add: run_queued_closed)
next
  case (Cons c cs)
  let ?upd = "\<lambda>t. setMessages (rewrite_text m t) s"
  show ?case
  proof (cases "case rs of [] \<Rightarrow> True | render # _ \<Rightarrow> render")
    case True
    have ran: "run_queued (Suc q) m (acc @ c) s = replicate (Suc q) (?upd (acc @ c))"
      by (rule run_queued_closed)
    have lst: "last (s # run_queued (Suc q) m (acc @ c) s) = ?upd (acc @ c)"
      by (simp add: run_queued_last del: run_queued.simps last.simps)
    have rest: "for_await m (acc @ c) 0 cs (tl rs) (?upd (acc @ c)) =
        map (\<lambda>r. ?upd ((acc @ c) @ concat (take r cs))) (read_points 0 (length cs) (tl rs))"
      by (simp add: Cons.IH setMessages_rewrite_again)
    have "for_await m acc q (c # cs) rs s =
        run_queued (Suc q) m (acc @ c) s @
        for_await m (acc @ c) 0 cs (tl rs) (last (s # run_queued (Suc q) m (acc @ c) s))"
      using True by (simp add: Let_def del: run_queued.simps last.simps)
    also have "\<dots> = replicate (Suc q) (?upd (acc @ c)) @
        map (\<lambda>r. ?upd ((acc @ c) @ concat (take r cs))) (read_points 0 (length cs) (tl rs))"
      by (simp only: lst) (simp only: ran rest)
    also have "\<dots> = map (\<lambda>r. ?upd (acc @ concat (take r (c # cs))))
        (replicate (Suc q) 1 @ map Suc (read_points 0 (length cs) (tl rs)))"
      by (simp add: comp_def)
    finally show ?thesis using True by simp
  next
    case False
    have "for_await m acc q (c # cs) rs s = for_await m (acc @ c) (Suc q) cs (tl rs) s"
      using False by (simp add: Let_def)
    also have "\<dots> = map (\<lambda>r. ?upd ((acc @ c) @ concat (take r cs)))
        (read_points (Suc q) (length cs) (tl rs))"
      by (rule Cons.IH)
    also have "\<dots> = map (\<lambda>r. ?upd (acc @ concat (take r (c # cs))))
        (map Suc (read_points (Suc q) (length cs) (tl rs)))"
      by (simp add: comp_def)
    finally show ?thesis using False by simp
  qed
qed

lemma for_await_length: "length (for_await m acc q cs rs s) = q + length cs"
  by (simp add: for_await_closed read_points_length)

lemma read_points_upper: "r \<in> set (read_points q n rs) \<Longrightarrow> r \<le> n"
  by (induction n arbitrary: q rs r) (auto split: if_splits)

lemma read_points_last: "0 < q + n \<Longrightarrow> last (read_points q n rs) = n"
proof (induction n arbitrary: q rs)
  case 0
  then show ?case by simp
next
  case (Suc n)
  show ?case
  proof (cases "n = 0")
    case True
    then show ?thesis by simp
  next
    case False
    then have ne: "read_points 0 n (tl rs) \<noteq> []" "read_points (Suc q) n (tl rs) \<noteq> []"
      using read_points_length [of 0 n "tl rs"] read_points_length [of "Suc q" n "tl rs"]
      by auto
    from False have "last (read_points 0 n (tl rs)) = n" "last (read_points (Suc q) n (tl rs)) = n"
      by (simp_all add: Suc.IH)
    with ne show ?thesis by (simp add: last_map)
  qed
qed

lemma read_points_lower: "k < q + n \<Longrightarrow> Suc k \<le> read_points q n rs ! k + q"
proof (induction n arbitrary: q rs k)
  case 0
  then show ?case by simp
next
  case (Suc n)
  show ?case
  proof (cases "case rs of [] \<Rightarrow> True | render # _ \<Rightarrow> render")
    case True
    show ?thesis
    proof (cases "k < Suc q")
      case k: True
      then have "(replicate (Suc q) 1 @ map Suc (read_points 0 n (tl rs))) ! k = 1"
        by (simp add: nth_append del: replicate.simps)
      with True k show ?thesis by simp
    next
      case k: False
      then have kk: "k - Suc q < 0 + n" using Suc.prems by simp
      from k have "(replicate (Suc q) 1 @ map Suc (read_points 0 n (tl rs))) ! k =
          Suc (read_points 0 n (tl rs) ! (k - Suc q))"
        using kk by (simp add: nth_append read_points_length del: replicate.simps)
      with True Suc.IH [OF kk, of "tl rs"] k show ?thesis by simp
    qed
  next
    case False
    from Suc.prems have kk: "k < Suc q + n" by simp
    from False Suc.IH [OF kk, of "tl rs"] kk show ?thesis
      by (simp add: read_points_length)
  qed
qed

lemma sorted_map_Suc: "sorted xs \<Longrightarrow> sorted (map Suc xs)"
  by (induction xs) auto

lemma read_points_sorted: "sorted (read_points q n rs)"
proof (induction n arbitrary: q rs)
  case 0
  then show ?case by simp
next
  case (Suc n)
  have front: "sorted (replicate (Suc q) (1::nat) @ map Suc (read_points 0 n (tl rs)))"
    unfolding sorted_append
    using sorted_map_Suc [OF Suc.IH [of 0 "tl rs"]] by (auto simp del: replicate.simps)
  from front sorted_map_Suc [OF Suc.IH [of "Suc q" "tl rs"]] show ?case by simp
qed

lemma read_points_every_render:
  "set rs \<subseteq> {True} \<Longrightarrow> read_points 0 n rs = [1..<Suc n]"
proof (induction n arbitrary: rs)
  case 0
  then show ?case by simp
next
  case (Suc n)
  from Suc.prems have hd: "(case rs of [] \<Rightarrow> True | render # _ \<Rightarrow> render)"
    by (cases rs) auto
  from Suc.prems have "set (tl rs) \<subseteq> {True}" by (cases rs) auto
  then have "read_points 0 n (tl rs) = [1..<Suc n]" by (rule Suc.IH)
  moreover have "1 # map Suc [1..<Suc n] = [1..<Suc (Suc n)]"
    by (simp add: upt_conv_Cons map_Suc_upt del: upt_Suc)
  ultimately show ?case using hd by simp
qed

lemma for_await_last:
  "last (s # for_await m acc q cs rs s) =
     (if q = 0 \<and> cs = [] then s else setMessages (rewrite_text m (acc @ concat cs)) s)"
proof (cases "q = 0 \<and> cs = []")
  case True
  then show ?thesis by simp
next
  case False
  then have pos: "0 < q + length cs" by auto
  then have ne: "read_points q (length cs) rs \<noteq> []"
    using read_points_length [of q "length cs" rs] by auto
  have "last (s # for_await m acc q cs rs s) = setMessages (rewrite_text m (acc @ concat cs)) s"
    using ne read_points_last [OF pos, of rs] by (simp add: for_await_closed last_map)
  with False show ?thesis by (simp only: if_False)
qed

section \<open>What a submission leaves behind\<close>

lemma for_await_Nil: "for_await m acc 0 cs rs s = [] \<longleftrightarrow> cs = []"
  using for_await_length [of m acc 0 cs rs s] by auto

lemma for_await_last_nonempty:
  "cs \<noteq> [] \<Longrightarrow>
     last (for_await m acc 0 cs rs s) = setMessages (rewrite_text m (acc @ concat cs)) s"
  using for_await_last [of s m acc 0 cs rs] by (simp add: for_await_Nil)

lemma handleSendMessage_unset:
  "chat s = None \<Longrightarrow>
     handleSendMessage renders now1 now2 stream userMessage s = \<lparr>settled = Normal, requests = [], states = []\<rparr>"
  by (simp add: handleSendMessage_def)

lemma handleSendMessage_states:
  assumes "chat s = Some c"
  shows "states (handleSendMessage renders now1 now2 stream userMessage s) =
     (let s1 = setIsLoading True s;
          s2 = setError None s1;
          s3 = setMessages (\<lambda>prevMessages. prevMessages @
                 [\<lparr>id_msg = toString now1, role = user, text_msg = userMessage\<rparr>]) s2;
          s4 = setMessages (\<lambda>prevMessages. prevMessages @
                 [\<lparr>id_msg = ''model-'' @ toString now2, role = model, text_msg = ''''\<rparr>]) s3;
          streaming = for_await (''model-'' @ toString now2) [] 0 (chunks stream) renders s4;
          s5 = last (s4 # streaming);
          handling = (case ending stream of Completes \<Rightarrow> []
                      | Raises e \<Rightarrow> snd (catch_block (''model-'' @ toString now2) e s5));
          s7 = setIsLoading False (last (s5 # handling))
      in [s1, s2, s3, s4] @ streaming @ handling @ [s7])"
  using assms
  by (simp add: handleSendMessage_def try_block_def Let_def split: stream_end.splits prod.splits)

lemma handleSendMessage_settled: "settled (handleSendMessage renders now1 now2 stream userMessage s) = Normal"
  by (simp add: handleSendMessage_def try_block_def catch_block_def Let_def
      split: option.splits stream_end.splits prod.splits)

lemma handleSendMessage_requests:
  "requests (handleSendMessage renders now1 now2 stream userMessage s) =
     (case chat s of None \<Rightarrow> [] | Some c \<Rightarrow> [(c, userMessage)])"
  by (simp add: handleSendMessage_def try_block_def Let_def split: option.splits stream_end.splits prod.splits)

lemma user_not_placeholder: "toString now1 \<noteq> CHR ''m'' # CHR ''o'' # CHR ''d'' # CHR ''e'' # CHR ''l'' # CHR ''-'' # t"
  using toString_not_model [of now1 t] by simp

lemma handleSendMessage_completes:
  assumes "chat s = Some c"
  shows "final_state s (handleSendMessage renders now1 now2 (Stream fs Completes) userMessage s) =
     s\<lparr>messages :=
          (if fs = [] then messages s
           else rewrite_text (''model-'' @ toString now2) (concat fs) (messages s)) @
          [\<lparr>id_msg = toString now1, role = user, text_msg = userMessage\<rparr>,
           \<lparr>id_msg = ''model-'' @ toString now2, role = model, text_msg = concat fs\<rparr>],
        isLoading := False, error := None\<rparr>"
  using assms
  by (simp add: final_state_def handleSendMessage_states Let_def for_await_Nil
      for_await_last_nonempty setMessages_def setIsLoading_def setError_def rewrite_text_def user_not_placeholder)

lemma handleSendMessage_raises:
  assumes "chat s = Some c"
  shows "final_state s (handleSendMessage renders now1 now2 (Stream fs (Raises e)) userMessage s) =
     s\<lparr>messages :=
          rewrite_text (''model-'' @ toString now2) ''Sorry, I encountered an error.'' (messages s) @
          [\<lparr>id_msg = toString now1, role = user, text_msg = userMessage\<rparr>,
           \<lparr>id_msg = ''model-'' @ toString now2, role = model,
            text_msg = ''Sorry, I encountered an error.''\<rparr>],
        isLoading := False,
        error := Some ''An error occurred while getting a response. Please try again.''\<rparr>"
  using assms
  by (simp add: final_state_def handleSendMessage_states Let_def for_await_Nil
      for_await_last_nonempty catch_block_def setMessages_def setIsLoading_def setError_def rewrite_text_def user_not_placeholder)

lemma bootstrapped_eq:
  "bootstrapped c = \<lparr>chat = Some c, messages = [greeting], isLoading = False, error = None\<rparr>"
  by (simp add: bootstrapped_def final_state_def bootstrap_def bootstrap_try_def bootstrap_catch_def
      initial_state_def setChat_def setMessages_def)

lemma bootstrapped_chat: "chat (bootstrapped c) = Some c"
  by (simp add: bootstrapped_eq)

lemma bootstrapped_messages: "messages (bootstrapped c) = [greeting]"
  by (simp add: bootstrapped_eq)

section \<open>The shape of the store along a run\<close>

lemma ids_and_roles_flags [simp]:
  "ids_and_roles (setIsLoading b s) = ids_and_roles s"
  "ids_and_roles (setError e s) = ids_and_roles s"
  "ids_and_roles (setChat h s) = ids_and_roles s"
  by (simp_all add: ids_and_roles_def setIsLoading_def setError_def setChat_def)

lemma ids_and_roles_rewrite [simp]:
  "ids_and_roles (setMessages (rewrite_text m t) s) = ids_and_roles s"
  by (simp add: ids_and_roles_def setMessages_def rewrite_text_def comp_def)

lemma ids_and_roles_append [simp]:
  "ids_and_roles (setMessages (\<lambda>prevMessages. prevMessages @ [x]) s) =
     ids_and_roles s @ [(id_msg x, role x)]"
  by (simp add: ids_and_roles_def setMessages_def)

lemma for_await_shape:
  "map ids_and_roles (for_await m acc q cs rs s) = replicate (q + length cs) (ids_and_roles s)"
  by (simp add: for_await_closed comp_def map_replicate_const read_points_length)

lemma for_await_last_shape:
  "ids_and_roles (last (s # for_await m acc q cs rs s)) = ids_and_roles s"
  by (simp add: for_await_last del: last.simps)

lemma catch_block_shape:
  "map ids_and_roles (snd (catch_block m e s)) = replicate 2 (ids_and_roles s)"
  by (simp add: catch_block_def Let_def numeral_2_eq_2)

lemma catch_block_last_shape:
  "ids_and_roles (last (s # snd (catch_block m e s))) = ids_and_roles s"
  by (simp add: catch_block_def Let_def)

lemma replicate_around:
  "x # replicate n x @ replicate 2 x @ [x] = replicate (Suc (Suc (Suc (Suc n)))) x"
  by (simp add: numeral_2_eq_2 replicate_app_Cons_same)

lemma handleSendMessage_shapes:
  assumes "chat s = Some c"
  shows "map ids_and_roles (states (handleSendMessage renders now1 now2 stream userMessage s)) =
     [ids_and_roles s, ids_and_roles s, ids_and_roles s @ [(toString now1, user)]] @
     replicate
       (2 + length (chunks stream) + (case ending stream of Completes \<Rightarrow> 0 | Raises e \<Rightarrow> 2))
       (ids_and_roles s @ [(toString now1, user), (''model-'' @ toString now2, model)])"
proof (cases "ending stream")
  case Completes
  then show ?thesis
    using assms
    by (simp add: handleSendMessage_states Let_def for_await_shape for_await_last_shape
        replicate_append_same last_ConsL del: last.simps)
next
  case (Raises e)
  then show ?thesis
    using assms
    by (simp add: handleSendMessage_states Let_def for_await_shape for_await_last_shape
        catch_block_shape catch_block_last_shape replicate_around last_ConsL
        del: last.simps replicate_Suc)
qed

lemma final_state_in: "states r \<noteq> [] \<Longrightarrow> final_state s r = last (states r)"
  by (simp add: final_state_def)

lemma handleSendMessage_final_shape:
  assumes "chat s = Some c"
  shows "ids_and_roles (final_state s (handleSendMessage renders now1 now2 stream userMessage s)) =
     ids_and_roles s @ [(toString now1, user), (''model-'' @ toString now2, model)]"
proof -
  let ?r = "handleSendMessage renders now1 now2 stream userMessage s"
  let ?k = "ids_and_roles s @ [(toString now1, user), (''model-'' @ toString now2, model)]"
  from assms have ne: "states ?r \<noteq> []"
    by (simp add: handleSendMessage_states Let_def)
  have "ids_and_roles (last (states ?r)) = last (map ids_and_roles (states ?r))"
    using ne by (simp add: last_map)
  also have "\<dots> = ?k"
    by (simp add: handleSendMessage_shapes [OF assms] del: replicate_Suc replicate.simps)
  finally show ?thesis using ne by (simp add: final_state_in)
qed

lemma handleSendMessage_chat:
  "chat (final_state s (handleSendMessage renders now1 now2 stream userMessage s)) = chat s"
proof (cases "chat s")
  case None
  then show ?thesis by (simp add: handleSendMessage_unset final_state_def)
next
  case (Some c)
  obtain fs e where st: "stream = Stream fs e" by (cases stream)
  show ?thesis
    using Some
    by (cases e) (simp_all add: st handleSendMessage_completes handleSendMessage_raises)
qed


lemma extends_refl: "extends a a"
  by (simp add: extends_def)

lemma extends_trans: "extends a b \<Longrightarrow> extends b c \<Longrightarrow> extends a c"
  unfolding extends_def by (rule prefix_order.trans)

lemma sorted_wrt_extends_shapes:
  "sorted_wrt extends xs = sorted_wrt prefix (map ids_and_roles xs)"
  by (simp add: sorted_wrt_map extends_def [abs_def])

lemma sorted_wrt_replicate: "P x x \<Longrightarrow> sorted_wrt P (replicate n x)"
  by (induction n) simp_all

lemma handleSendMessage_grows:
  "sorted_wrt extends (s # states (handleSendMessage renders now1 now2 stream userMessage s))"
proof (cases "chat s")
  case None
  then show ?thesis by (simp add: handleSendMessage_unset)
next
  case (Some c)
  show ?thesis
    unfolding sorted_wrt_extends_shapes
    by (simp add: handleSendMessage_shapes [OF Some] sorted_wrt_append sorted_wrt_replicate
        del: replicate_Suc replicate.simps)
qed

lemma sorted_wrt_last:
  assumes "sorted_wrt P xs" "\<And>x. P x x" "x \<in> set xs"
  shows "P x (last xs)"
  using assms
proof (induction xs)
  case Nil
  then show ?case by simp
next
  case (Cons a xs)
  show ?case
  proof (cases "xs = []")
    case True
    with Cons show ?thesis by simp
  next
    case False
    then have l: "last xs \<in> set xs" by simp
    from Cons False l show ?thesis by auto
  qed
qed

lemma submit_all_grows: "sorted_wrt extends (s # submit_all_states subs s)"
proof (induction subs arbitrary: s)
  case Nil
  then show ?case by simp
next
  case (Cons sb subs)
  let ?r = "submit sb s"
  let ?s' = "final_state s ?r"
  have run: "sorted_wrt extends (s # states ?r)"
    by (simp add: submit_def handleSendMessage_grows del: sorted_wrt.simps)
  have rest: "sorted_wrt extends (?s' # submit_all_states subs ?s')"
    by (rule Cons.IH)
  have to_last: "extends x ?s'" if "x \<in> set (s # states ?r)" for x
    using sorted_wrt_last [OF run extends_refl that] by (simp add: final_state_def)
  have from_last: "extends ?s' y" if "y \<in> set (submit_all_states subs ?s')" for y
    using rest that by simp
  have tail: "sorted_wrt extends (submit_all_states subs ?s')"
    using rest by simp
  have cross: "\<forall>x \<in> set (s # states ?r). \<forall>y \<in> set (submit_all_states subs ?s'). extends x y"
    using to_last from_last extends_trans by blast
  have "sorted_wrt extends ((s # states ?r) @ submit_all_states subs ?s')"
    unfolding sorted_wrt_append using run tail cross by blast
  then show ?case by simp
qed

lemma grows_append:
  assumes "sorted_wrt extends (s # xs)" "sorted_wrt extends (last (s # xs) # ys)"
  shows "sorted_wrt extends (s # xs @ ys)"
proof -
  have to_last: "extends x (last (s # xs))" if "x \<in> set (s # xs)" for x
    by (rule sorted_wrt_last [OF assms(1) extends_refl that])
  have from_last: "extends (last (s # xs)) y" if "y \<in> set ys" for y
    using assms(2) that by simp
  have tail: "sorted_wrt extends ys"
    using assms(2) by simp
  have cross: "\<forall>x \<in> set (s # xs). \<forall>y \<in> set ys. extends x y"
    using to_last from_last extends_trans by blast
  have "sorted_wrt extends ((s # xs) @ ys)"
    unfolding sorted_wrt_append using assms(1) tail cross by blast
  then show ?thesis by simp
qed

lemma bootstrap_grows:
  "sorted_wrt extends (initial_state # states (bootstrap startChat initial_state))"
  by (cases startChat)
    (simp_all add: bootstrap_def bootstrap_try_def bootstrap_catch_def extends_def ids_and_roles_def
      setChat_def setMessages_def setError_def initial_state_def)

lemma session_grows: "sorted_wrt extends (session_states startChat subs)"
proof -
  have "sorted_wrt extends
     (initial_state # states (bootstrap startChat initial_state) @
      submit_all_states subs (last (initial_state # states (bootstrap startChat initial_state))))"
    by (rule grows_append) (simp_all add: bootstrap_grows submit_all_grows
        del: sorted_wrt.simps last.simps)
  then show ?thesis by (simp add: session_states_def final_state_def)
qed

section \<open>What a run may rewrite\<close>

lemma for_await_messages:
  assumes "st \<in> set (for_await m acc q cs rs s)"
  shows "\<exists>t. messages st = rewrite_text m t (messages s)"
  using assms by (auto simp: for_await_closed setMessages_def)

lemma for_await_last_messages:
  "messages (last (s # for_await m acc q cs rs s)) = messages s \<or>
   (\<exists>t. messages (last (s # for_await m acc q cs rs s)) = rewrite_text m t (messages s))"
  by (auto simp: for_await_last setMessages_def simp del: last.simps)

lemma handleSendMessage_states_messages:
  assumes "chat s = Some c"
    and "st \<in> set (states (handleSendMessage renders now1 now2 stream userMessage s))"
  shows "messages st = messages s \<or>
     messages st = messages s @ [\<lparr>id_msg = toString now1, role = user, text_msg = userMessage\<rparr>] \<or>
     messages st = messages s @
       [\<lparr>id_msg = toString now1, role = user, text_msg = userMessage\<rparr>,
        \<lparr>id_msg = ''model-'' @ toString now2, role = model, text_msg = []\<rparr>] \<or>
     (\<exists>t. messages st = rewrite_text (''model-'' @ toString now2) t
        (messages s @
          [\<lparr>id_msg = toString now1, role = user, text_msg = userMessage\<rparr>,
           \<lparr>id_msg = ''model-'' @ toString now2, role = model, text_msg = []\<rparr>]))"
proof -
  let ?m = "''model-'' @ toString now2"
  let ?u = "\<lparr>id_msg = toString now1, role = user, text_msg = userMessage\<rparr>"
  let ?p = "\<lparr>id_msg = ?m, role = model, text_msg = []\<rparr>"
  define s4 where "s4 =
    setMessages (\<lambda>prevMessages. prevMessages @ [?p])
      (setMessages (\<lambda>prevMessages. prevMessages @ [?u]) (setError None (setIsLoading True s)))"
  define streaming where "streaming = for_await ?m [] 0 (chunks stream) renders s4"
  define s5 where "s5 = last (s4 # streaming)"
  define handling where "handling =
    (case ending stream of Completes \<Rightarrow> [] | Raises e \<Rightarrow> snd (catch_block ?m e s5))"
  define s7 where "s7 = setIsLoading False (last (s5 # handling))"
  have m4: "messages s4 = messages s @ [?u, ?p]"
    by (simp add: s4_def setMessages_def setError_def setIsLoading_def)
  have R: "messages x = messages s4 \<or> (\<exists>t. messages x = rewrite_text ?m t (messages s4))"
    if "x \<in> set streaming" for x
    using that for_await_messages [of x ?m "[]" 0 "chunks stream" renders s4] by (simp add: streaming_def)
  have R5: "messages s5 = messages s4 \<or> (\<exists>t. messages s5 = rewrite_text ?m t (messages s4))"
    unfolding s5_def streaming_def by (rule for_await_last_messages)
  have RH: "messages x = messages s4 \<or> (\<exists>t. messages x = rewrite_text ?m t (messages s4))"
    if "x \<in> set (s5 # handling)" for x
  proof (cases "ending stream")
    case Completes
    with that R5 show ?thesis by (simp add: handling_def)
  next
    case (Raises e)
    with that have "x = s5 \<or> messages x = messages s5 \<or>
        messages x = rewrite_text ?m ''Sorry, I encountered an error.'' (messages s5)"
      by (auto simp: handling_def catch_block_def Let_def setError_def setMessages_def)
    with R5 show ?thesis by (auto simp: rewrite_text_again)
  qed
  have "last (s5 # handling) \<in> set (s5 # handling)" by (rule last_in_set) simp
  then have R7: "messages s7 = messages s4 \<or> (\<exists>t. messages s7 = rewrite_text ?m t (messages s4))"
    using RH [of "last (s5 # handling)"] by (simp add: s7_def setIsLoading_def del: last.simps)
  have "states (handleSendMessage renders now1 now2 stream userMessage s) =
      [setIsLoading True s, setError None (setIsLoading True s),
       setMessages (\<lambda>prevMessages. prevMessages @ [?u]) (setError None (setIsLoading True s)), s4] @
      streaming @ handling @ [s7]"
    by (simp only: handleSendMessage_states [OF assms(1)] Let_def s4_def streaming_def s5_def
        handling_def s7_def)
  with assms(2) have "st = setIsLoading True s \<or> st = setError None (setIsLoading True s) \<or>
      st = setMessages (\<lambda>prevMessages. prevMessages @ [?u]) (setError None (setIsLoading True s)) \<or>
      st = s4 \<or> st \<in> set streaming \<or> st \<in> set (s5 # handling) \<or> st = s7"
    by auto
  then show ?thesis
    using R RH R7 m4
    by (auto simp: setIsLoading_def setError_def setMessages_def)
qed

lemma handleSendMessage_frame:
  assumes "chat s = Some c"
    and "st \<in> set (states (handleSendMessage renders now1 now2 stream userMessage s))"
    and "i < length (messages s)"
    and "id_msg (messages s ! i) \<noteq> ''model-'' @ toString now2"
  shows "i < length (messages st) \<and> messages st ! i = messages s ! i"
  using handleSendMessage_states_messages [OF assms(1,2)] assms(3,4)
  by (auto simp: nth_append rewrite_text_nth rewrite_text_length)

lemma submit_frame:
  assumes "i < length (messages s)"
    and "id_msg (messages s ! i) \<noteq> ''model-'' @ toString (at2 sb)"
  shows "i < length (messages (final_state s (submit sb s))) \<and>
     messages (final_state s (submit sb s)) ! i = messages s ! i"
proof (cases "chat s")
  case None
  with assms show ?thesis by (simp add: submit_def handleSendMessage_unset final_state_def)
next
  case (Some c)
  let ?r = "handleSendMessage (rendered sb) (at1 sb) (at2 sb) (reply sb) (input sb) s"
  from Some have ne: "states ?r \<noteq> []"
    by (simp add: handleSendMessage_states Let_def)
  then have "last (states ?r) \<in> set (states ?r)" by (rule last_in_set)
  from handleSendMessage_frame [OF Some this assms] ne show ?thesis
    by (simp add: submit_def final_state_in)
qed

lemma submit_all_states_frame:
  assumes "st \<in> set (submit_all_states subs s)"
    and "i < length (messages s)"
    and "\<forall>sb \<in> set subs. id_msg (messages s ! i) \<noteq> ''model-'' @ toString (at2 sb)"
  shows "i < length (messages st) \<and> messages st ! i = messages s ! i"
  using assms
proof (induction subs arbitrary: s)
  case Nil
  then show ?case by simp
next
  case (Cons sb subs)
  let ?s' = "final_state s (submit sb s)"
  from Cons.prems have id: "id_msg (messages s ! i) \<noteq> ''model-'' @ toString (at2 sb)"
    by simp
  note keep = submit_frame [OF Cons.prems(2) id]
  from Cons.prems(1) consider
    (run) "st \<in> set (states (submit sb s))" | (later) "st \<in> set (submit_all_states subs ?s')"
    by auto
  then show ?case
  proof cases
    case run
    show ?thesis
    proof (cases "chat s")
      case None
      with run show ?thesis by (simp add: submit_def handleSendMessage_unset)
    next
      case (Some c)
      from run show ?thesis
        unfolding submit_def by (rule handleSendMessage_frame [OF Some _ Cons.prems(2) id])
    qed
  next
    case later
    from keep Cons.prems(3)
    have "\<forall>sb \<in> set subs. id_msg (messages ?s' ! i) \<noteq> ''model-'' @ toString (at2 sb)"
      by simp
    from Cons.IH [OF later _ this] keep show ?thesis by simp
  qed
qed

lemma submit_all_frame:
  assumes "i < length (messages s)"
    and "\<forall>sb \<in> set subs. id_msg (messages s ! i) \<noteq> ''model-'' @ toString (at2 sb)"
  shows "i < length (messages (submit_all subs s)) \<and>
     messages (submit_all subs s) ! i = messages s ! i"
  using assms
proof (induction subs arbitrary: s)
  case Nil
  then show ?case by simp
next
  case (Cons sb subs)
  let ?s' = "final_state s (submit sb s)"
  from Cons.prems have id: "id_msg (messages s ! i) \<noteq> ''model-'' @ toString (at2 sb)"
    by simp
  note keep = submit_frame [OF Cons.prems(1) id]
  from keep Cons.prems(2)
  have "\<forall>sb \<in> set subs. id_msg (messages ?s' ! i) \<noteq> ''model-'' @ toString (at2 sb)"
    by simp
  from Cons.IH [OF _ this] keep show ?case by simp
qed

section \<open>Sequences of submissions\<close>

lemma submit_all_append: "submit_all (xs @ ys) s = submit_all ys (submit_all xs s)"
  by (induction xs arbitrary: s) simp_all

lemma submit_chat: "chat (final_state s (submit sb s)) = chat s"
  by (simp add: submit_def handleSendMessage_chat)

lemma submit_all_chat: "chat (submit_all subs s) = chat s"
  by (induction subs arbitrary: s) (simp_all add: submit_chat)

lemma submit_all_shape:
  assumes "chat s = Some c"
  shows "ids_and_roles (submit_all subs s) =
     ids_and_roles s @
     concat (map (\<lambda>sb. [(toString (at1 sb), user), (''model-'' @ toString (at2 sb), model)]) subs)"
  using assms
proof (induction subs arbitrary: s)
  case Nil
  then show ?case by simp
next
  case (Cons sb subs)
  let ?s' = "final_state s (submit sb s)"
  from Cons.prems have "chat ?s' = Some c" by (simp add: submit_chat)
  from Cons.IH [OF this] Cons.prems show ?case
    by (simp add: submit_def handleSendMessage_final_shape)
qed

lemma submit_all_unset: "chat s = None \<Longrightarrow> submit_all_states subs s = [] \<and> submit_all subs s = s"
  by (induction subs) (simp_all add: submit_def handleSendMessage_unset final_state_def)

lemma submit_all_last: "last (s # submit_all_states subs s) = submit_all subs s"
proof (induction subs arbitrary: s)
  case Nil
  then show ?case by simp
next
  case (Cons sb subs)
  let ?s' = "final_state s (submit sb s)"
  have "last (s # states (submit sb s) @ submit_all_states subs ?s') =
      last (last (s # states (submit sb s)) # submit_all_states subs ?s')"
    by (simp add: last_append)
  also have "\<dots> = submit_all subs ?s'"
    using Cons.IH [of ?s'] by (simp only: final_state_def)
  finally show ?case by simp
qed

lemma pairs_length: "length (concat (map (\<lambda>sb. [f sb, g sb]) subs)) = 2 * length subs"
  by (induction subs) simp_all

lemma pairs_nth:
  "k < length subs \<Longrightarrow>
     concat (map (\<lambda>sb. [f sb, g sb]) subs) ! (2 * k) = f (subs ! k) \<and>
     concat (map (\<lambda>sb. [f sb, g sb]) subs) ! (2 * k + 1) = g (subs ! k)"
proof (induction subs arbitrary: k)
  case Nil
  then show ?case by simp
next
  case (Cons sb subs)
  show ?case
  proof (cases k)
    case 0
    then show ?thesis by simp
  next
    case (Suc j)
    with Cons.prems have "j < length subs" by simp
    from Cons.IH [OF this] Suc show ?thesis by simp
  qed
qed

lemma ids_and_roles_length: "length (ids_and_roles s) = length (messages s)"
  by (simp add: ids_and_roles_def)

lemma ids_and_roles_nth:
  "i < length (messages s) \<Longrightarrow>
     ids_and_roles s ! i = (id_msg (messages s ! i), role (messages s ! i))"
  by (simp add: ids_and_roles_def)

lemma submit_all_length:
  assumes "chat s = Some c"
  shows "length (messages (submit_all subs s)) = length (messages s) + 2 * length subs"
  using arg_cong [OF submit_all_shape [OF assms, of subs], of length]
  by (simp add: ids_and_roles_length pairs_length)

lemma submit_new_user:
  assumes "chat s = Some c"
  shows "messages (final_state s (submit sb s)) ! length (messages s) =
     \<lparr>id_msg = toString (at1 sb), role = user, text_msg = input sb\<rparr>"
proof -
  obtain fs e where st: "reply sb = Stream fs e" by (cases "reply sb")
  show ?thesis
    using assms
    by (cases e)
      (simp_all add: submit_def st handleSendMessage_completes handleSendMessage_raises
        nth_append rewrite_text_length)
qed

lemma submit_all_user_record:
  assumes "chat s = Some c" and "k < length subs"
  shows "messages (submit_all subs s) ! (length (messages s) + 2 * k) =
     \<lparr>id_msg = toString (at1 (subs ! k)), role = user, text_msg = input (subs ! k)\<rparr>"
proof -
  let ?before = "submit_all (take k subs) s"
  let ?sb = "subs ! k"
  let ?after = "final_state ?before (submit ?sb ?before)"
  have split: "subs = take k subs @ ?sb # drop (Suc k) subs"
    using assms(2) by (simp add: id_take_nth_drop)
  have ch: "chat ?before = Some c"
    using assms(1) by (simp add: submit_all_chat)
  have len: "length (messages ?before) = length (messages s) + 2 * k"
    using assms(2) by (simp add: submit_all_length [OF assms(1)])
  have new: "messages ?after ! (length (messages s) + 2 * k) =
      \<lparr>id_msg = toString (at1 ?sb), role = user, text_msg = input ?sb\<rparr>"
    using submit_new_user [OF ch, of ?sb] by (simp add: len)
  have inside: "length (messages s) + 2 * k < length (messages ?after)"
    using arg_cong [OF handleSendMessage_final_shape [OF ch, of "rendered ?sb" "at1 ?sb" "at2 ?sb" "reply ?sb" "input ?sb"], of length]
    by (simp add: ids_and_roles_length len submit_def)
  have "submit_all subs s = submit_all (drop (Suc k) subs) ?after"
    by (subst split) (simp add: submit_all_append)
  moreover have "messages (submit_all (drop (Suc k) subs) ?after) ! (length (messages s) + 2 * k) =
      messages ?after ! (length (messages s) + 2 * k)"
    using submit_all_frame [OF inside, of "drop (Suc k) subs"]
    by (simp add: new user_not_placeholder)
  ultimately show ?thesis by (simp add: new)
qed

lemma submit_all_flags:
  assumes "chat s = Some c" and "subs \<noteq> []"
    and "\<forall>sb \<in> set subs. ending (reply sb) = Completes"
  shows "isLoading (submit_all subs s) = False \<and> error (submit_all subs s) = None"
proof -
  from assms(2) obtain xs x where subs: "subs = xs @ [x]"
    by (cases subs rule: rev_cases) auto
  obtain fs e where st: "reply x = Stream fs e" by (cases "reply x")
  from assms(3) subs st have e: "e = Completes" by simp
  have ch: "chat (submit_all xs s) = Some c"
    using assms(1) by (simp add: submit_all_chat)
  show ?thesis
    by (simp add: subs submit_all_append submit_def st e handleSendMessage_completes [OF ch])
qed

lemma for_await_nth:
  "k < q + length cs \<Longrightarrow>
     for_await m acc q cs rs s ! k =
       setMessages (rewrite_text m (acc @ concat (take (read_points q (length cs) rs ! k) cs))) s"
  by (simp add: for_await_closed read_points_length)

lemma for_await_step:
  assumes "k < q + length cs"
  shows "for_await m acc q cs rs s ! k =
     setMessages (rewrite_text m (acc @ concat (take (read_points q (length cs) rs ! k) cs)))
       ((s # for_await m acc q cs rs s) ! k)"
proof (cases k)
  case 0
  with assms show ?thesis by (simp add: for_await_nth)
next
  case (Suc j)
  with assms have "j < q + length cs" by simp
  then have "(s # for_await m acc q cs rs s) ! k =
      setMessages (rewrite_text m (acc @ concat (take (read_points q (length cs) rs ! j) cs))) s"
    using Suc by (simp add: for_await_nth)
  then show ?thesis
    using assms by (simp add: for_await_nth setMessages_rewrite_again)
qed

section \<open>Ids of a session\<close>

lemma ids_of_shape: "map id_msg (messages s) = map fst (ids_and_roles s)"
  by (simp add: ids_and_roles_def comp_def)

lemma extends_distinct:
  assumes "extends a b" and "distinct (map id_msg (messages b))"
  shows "distinct (map id_msg (messages a))"
proof -
  from assms(1) obtain zs where "ids_and_roles b = ids_and_roles a @ zs"
    unfolding extends_def by (auto elim: prefixE)
  then have "map id_msg (messages b) = map id_msg (messages a) @ map fst zs"
    by (simp add: ids_of_shape)
  with assms(2) show ?thesis by simp
qed

lemma session_last:
  "last (session_states startChat subs) =
     submit_all subs (final_state initial_state (bootstrap startChat initial_state))"
proof -
  let ?b = "final_state initial_state (bootstrap startChat initial_state)"
  have "last (session_states startChat subs) =
      last (last (initial_state # states (bootstrap startChat initial_state)) #
        submit_all_states subs ?b)"
    by (simp add: session_states_def last_append)
  also have "\<dots> = submit_all subs ?b"
    using submit_all_last [of ?b subs] by (simp only: final_state_def)
  finally show ?thesis .
qed

lemma session_extends_last:
  assumes "st \<in> set (session_states startChat subs)"
  shows "extends st (submit_all subs (final_state initial_state (bootstrap startChat initial_state)))"
  using sorted_wrt_last [OF session_grows extends_refl assms] by (simp add: session_last)

lemma clock_ids_set:
  "set (concat (map (\<lambda>sb. [toString (at1 sb), ''model-'' @ toString (at2 sb)]) subs)) =
     (\<lambda>sb. toString (at1 sb)) ` set subs \<union> (\<lambda>sb. ''model-'' @ toString (at2 sb)) ` set subs"
  by (induction subs) auto

lemma clock_ids_distinct:
  assumes "distinct (map at1 subs)" and "distinct (map at2 subs)"
  shows "distinct (''init'' #
     concat (map (\<lambda>sb. [toString (at1 sb), ''model-'' @ toString (at2 sb)]) subs))"
proof -
  have rest: "distinct (concat (map (\<lambda>sb. [toString (at1 sb), ''model-'' @ toString (at2 sb)]) subs))"
    using assms
  proof (induction subs)
    case Nil
    then show ?case by simp
  next
    case (Cons sb subs)
    have u: "toString (at1 sb) \<notin> (\<lambda>sb. toString (at1 sb)) ` set subs"
      using Cons.prems(1) by (auto dest: toString_inj)
    have u': "toString (at1 sb) \<notin> (\<lambda>sb. ''model-'' @ toString (at2 sb)) ` set subs"
      using toString_not_model by blast
    have p: "''model-'' @ toString (at2 sb) \<notin> (\<lambda>sb. ''model-'' @ toString (at2 sb)) ` set subs"
      using Cons.prems(2) by (auto dest: toString_inj)
    have p': "''model-'' @ toString (at2 sb) \<notin> (\<lambda>sb. toString (at1 sb)) ` set subs"
      using toString_not_model by (metis (no_types, lifting) imageE)
    have up: "toString (at1 sb) \<noteq> ''model-'' @ toString (at2 sb)"
      by (rule toString_not_model)
    from Cons have "distinct (concat (map (\<lambda>sb. [toString (at1 sb), ''model-'' @ toString (at2 sb)]) subs))"
      by simp
    moreover have "toString (at1 sb) \<notin>
        set (concat (map (\<lambda>sb. [toString (at1 sb), ''model-'' @ toString (at2 sb)]) subs))"
      unfolding clock_ids_set using u u' by blast
    moreover have "''model-'' @ toString (at2 sb) \<notin>
        set (concat (map (\<lambda>sb. [toString (at1 sb), ''model-'' @ toString (at2 sb)]) subs))"
      unfolding clock_ids_set using p p' by blast
    ultimately show ?case
      using up by (simp del: set_concat)
  qed
  have "''init'' \<notin> (\<lambda>sb. toString (at1 sb)) ` set subs"
    using toString_not_init by (metis (no_types, lifting) imageE)
  moreover have "''init'' \<notin> (\<lambda>sb. ''model-'' @ toString (at2 sb)) ` set subs"
    by auto
  ultimately have "''init'' \<notin>
      set (concat (map (\<lambda>sb. [toString (at1 sb), ''model-'' @ toString (at2 sb)]) subs))"
    unfolding clock_ids_set by blast
  with rest show ?thesis by (simp del: set_concat)
qed

lemma submit_all_ids:
  assumes "chat s = Some c"
  shows "map id_msg (messages (submit_all subs s)) =
     map id_msg (messages s) @
     concat (map (\<lambda>sb. [toString (at1 sb), ''model-'' @ toString (at2 sb)]) subs)"
  by (simp add: ids_of_shape submit_all_shape [OF assms] map_concat comp_def)

lemma bootstrap_final:
  "final_state initial_state (bootstrap startChat initial_state) =
     (case startChat of
        Inl e \<Rightarrow> \<lparr>chat = None, messages = [], isLoading = False,
          error = Some ''Failed to initialize the chat service. Please check your API key.''\<rparr>
      | Inr c \<Rightarrow> bootstrapped c)"
  by (cases startChat)
    (simp_all add: bootstrapped_def final_state_def bootstrap_def bootstrap_try_def bootstrap_catch_def
      initial_state_def setError_def)

lemma session_final_ids:
  "map id_msg (messages (submit_all subs
      (final_state initial_state (bootstrap startChat initial_state)))) =
     (case startChat of
        Inl e \<Rightarrow> []
      | Inr c \<Rightarrow> ''init'' #
          concat (map (\<lambda>sb. [toString (at1 sb), ''model-'' @ toString (at2 sb)]) subs))"
proof (cases startChat)
  case (Inl e)
  then show ?thesis by (simp add: bootstrap_final submit_all_unset)
next
  case (Inr c)
  then show ?thesis
    by (simp add: bootstrap_final submit_all_ids [OF bootstrapped_chat] bootstrapped_messages
        greeting_def)
qed

section \<open>The placeholder during a run\<close>

lemma handleSendMessage_states_completes:
  assumes "chat s = Some c"
  shows "states (handleSendMessage renders now1 now2 (Stream fs Completes) userMessage s) =
     [setIsLoading True s, setError None (setIsLoading True s),
      setMessages (\<lambda>prevMessages. prevMessages @
         [\<lparr>id_msg = toString now1, role = user, text_msg = userMessage\<rparr>])
        (setError None (setIsLoading True s)),
      s\<lparr>isLoading := True, error := None,
        messages := messages s @
          [\<lparr>id_msg = toString now1, role = user, text_msg = userMessage\<rparr>,
           \<lparr>id_msg = ''model-'' @ toString now2, role = model, text_msg = []\<rparr>]\<rparr>] @
     for_await (''model-'' @ toString now2) [] 0 fs renders
       (s\<lparr>isLoading := True, error := None,
          messages := messages s @
            [\<lparr>id_msg = toString now1, role = user, text_msg = userMessage\<rparr>,
             \<lparr>id_msg = ''model-'' @ toString now2, role = model, text_msg = []\<rparr>]\<rparr>) @
     [final_state s (handleSendMessage renders now1 now2 (Stream fs Completes) userMessage s)]"
proof -
  let ?r = "handleSendMessage renders now1 now2 (Stream fs Completes) userMessage s"
  let ?m = "''model-'' @ toString now2"
  let ?u = "\<lparr>id_msg = toString now1, role = user, text_msg = userMessage\<rparr>"
  let ?p = "\<lparr>id_msg = ?m, role = model, text_msg = []\<rparr>"
  let ?s3 = "setMessages (\<lambda>prevMessages. prevMessages @ [?u]) (setError None (setIsLoading True s))"
  let ?s4 = "s\<lparr>isLoading := True, error := None, messages := messages s @ [?u, ?p]\<rparr>"
  have s4: "setMessages (\<lambda>prevMessages. prevMessages @ [?p]) ?s3 = ?s4"
    by (simp add: setMessages_def setError_def setIsLoading_def)
  have "\<exists>s7. states ?r =
      ([setIsLoading True s, setError None (setIsLoading True s), ?s3, ?s4] @
       for_await ?m [] 0 fs renders ?s4) @ [s7]"
    using s4 by (simp add: handleSendMessage_states [OF assms] Let_def del: last.simps)
  then obtain s7 where st: "states ?r =
      ([setIsLoading True s, setError None (setIsLoading True s), ?s3, ?s4] @
       for_await ?m [] 0 fs renders ?s4) @ [s7]" ..
  then have "final_state s ?r = s7"
    by (simp add: final_state_def)
  with st show ?thesis by simp
qed

lemma for_await_placeholder_texts:
  assumes "pos < length (messages s)" and "id_msg (messages s ! pos) = m"
  shows "map (\<lambda>st. text_msg (messages st ! pos)) (for_await m acc q fs rs s) =
     map (\<lambda>r. acc @ concat (take r fs)) (read_points q (length fs) rs)"
  using assms by (simp add: for_await_closed setMessages_def rewrite_text_nth comp_def)

lemma handleSendMessage_placeholder_texts:
  assumes "chat s = Some c"
  shows "map (\<lambda>st. text_msg (messages st ! (length (messages s) + 1)))
       (drop 3 (states (handleSendMessage renders now1 now2 (Stream fs Completes) userMessage s))) =
     [] # map (\<lambda>r. concat (take r fs)) (read_points 0 (length fs) renders) @ [concat fs]"
proof -
  let ?r = "handleSendMessage renders now1 now2 (Stream fs Completes) userMessage s"
  let ?m = "''model-'' @ toString now2"
  let ?u = "\<lparr>id_msg = toString now1, role = user, text_msg = userMessage\<rparr>"
  let ?p = "\<lparr>id_msg = ?m, role = model, text_msg = []\<rparr>"
  let ?s4 = "s\<lparr>isLoading := True, error := None, messages := messages s @ [?u, ?p]\<rparr>"
  let ?text = "\<lambda>st. text_msg (messages st ! (length (messages s) + 1))"
  have loop: "map ?text (for_await ?m [] 0 fs renders ?s4) =
      map (\<lambda>r. concat (take r fs)) (read_points 0 (length fs) renders)"
    using for_await_placeholder_texts [of "length (messages s) + 1" ?s4 ?m "[]" 0 fs renders]
    by (simp add: nth_append)
  have fin: "?text (final_state s ?r) = concat fs"
    by (simp add: handleSendMessage_completes [OF assms] nth_append rewrite_text_length)
  have start: "?text ?s4 = []"
    by (simp add: nth_append)
  have "drop 3 (states ?r) = ?s4 # for_await ?m [] 0 fs renders ?s4 @ [final_state s ?r]"
    by (subst handleSendMessage_states_completes [OF assms]) simp
  then have "map ?text (drop 3 (states ?r)) =
      ?text ?s4 # map ?text (for_await ?m [] 0 fs renders ?s4) @ [?text (final_state s ?r)]"
    by simp
  then show ?thesis
    by (simp only: loop fin start)
qed

lemma submit_all_in_states:
  assumes "chat s = Some c" and "subs \<noteq> []"
  shows "submit_all subs s \<in> set (submit_all_states subs s)"
proof -
  from assms(2) obtain sb rest where subs: "subs = sb # rest" by (cases subs) auto
  from assms(1) have "states (submit sb s) \<noteq> []"
    by (simp add: submit_def handleSendMessage_states Let_def)
  then have ne: "submit_all_states subs s \<noteq> []" by (simp add: subs)
  then have "last (submit_all_states subs s) \<in> set (submit_all_states subs s)"
    by (rule last_in_set)
  moreover from ne have "last (submit_all_states subs s) = last (s # submit_all_states subs s)"
    by simp
  ultimately show ?thesis by (simp only: submit_all_last)
qed

lemma handleSendMessage_states_raises:
  assumes "chat s = Some c"
  shows "states (handleSendMessage renders now1 now2 (Stream fs (Raises e)) userMessage s) ! (3 + length fs) =
     last (s\<lparr>isLoading := True, error := None,
             messages := messages s @
               [\<lparr>id_msg = toString now1, role = user, text_msg = userMessage\<rparr>,
                \<lparr>id_msg = ''model-'' @ toString now2, role = model, text_msg = []\<rparr>]\<rparr> #
           for_await (''model-'' @ toString now2) [] 0 fs renders
             (s\<lparr>isLoading := True, error := None,
                messages := messages s @
                  [\<lparr>id_msg = toString now1, role = user, text_msg = userMessage\<rparr>,
                   \<lparr>id_msg = ''model-'' @ toString now2, role = model, text_msg = []\<rparr>]\<rparr>))"
proof -
  let ?r = "handleSendMessage renders now1 now2 (Stream fs (Raises e)) userMessage s"
  let ?m = "''model-'' @ toString now2"
  let ?u = "\<lparr>id_msg = toString now1, role = user, text_msg = userMessage\<rparr>"
  let ?p = "\<lparr>id_msg = ?m, role = model, text_msg = []\<rparr>"
  let ?s3 = "setMessages (\<lambda>prevMessages. prevMessages @ [?u]) (setError None (setIsLoading True s))"
  let ?s4 = "s\<lparr>isLoading := True, error := None, messages := messages s @ [?u, ?p]\<rparr>"
  let ?loop = "for_await ?m [] 0 fs renders ?s4"
  have s4: "setMessages (\<lambda>prevMessages. prevMessages @ [?p]) ?s3 = ?s4"
    by (simp add: setMessages_def setError_def setIsLoading_def)
  have "\<exists>rest. states ?r =
      [setIsLoading True s, setError None (setIsLoading True s), ?s3] @ (?s4 # ?loop) @ rest"
    using s4 by (simp add: handleSendMessage_states [OF assms] Let_def del: last.simps)
  then obtain rest where st: "states ?r =
      [setIsLoading True s, setError None (setIsLoading True s), ?s3] @ (?s4 # ?loop) @ rest" ..
  have "states ?r ! (3 + length fs) = ((?s4 # ?loop) @ rest) ! length fs"
    by (subst st) (simp add: nth_append)
  also have "\<dots> = (?s4 # ?loop) ! length fs"
    by (simp add: nth_append for_await_length del: nth_Cons_Suc nth.simps append.simps)
  also have "\<dots> = last (?s4 # ?loop)"
    by (simp add: last_conv_nth for_await_length del: last.simps)
  finally show ?thesis .
qed

lemma handleSendMessage_before_failure:
  assumes "chat s = Some c"
  shows "messages (states (handleSendMessage renders now1 now2 (Stream fs (Raises e)) userMessage s) !
        (3 + length fs)) =
     (if fs = [] then messages s
      else rewrite_text (''model-'' @ toString now2) (concat fs) (messages s)) @
     [\<lparr>id_msg = toString now1, role = user, text_msg = userMessage\<rparr>,
      \<lparr>id_msg = ''model-'' @ toString now2, role = model, text_msg = concat fs\<rparr>]"
  by (simp add: handleSendMessage_states_raises [OF assms] for_await_last setMessages_def
      rewrite_text_def user_not_placeholder del: last.simps)

section \<open>The claims\<close>

text \<open>
  C1, as the code has it, fails in two ways. First, the updater of the loop writes what the
  accumulator holds when React runs it: here both chunks arrive before React runs the
  queued updaters, and the placeholder (the record at position 2) goes from the empty
  text straight to \<open>Hi there!\<close>; the snapshot \<open>Hi\<close> is never in the store. Second, the
  placeholder is rewritten by id, and the id is a rendering of the clock: a first
  submission ends with the text \<open>Hi\<close> in its placeholder, a second submission that reads
  the same clock value has the same placeholder id, and its stream overwrites the first
  placeholder with \<open>Bye\<close>.
\<close>

theorem C1_later_stream_overwrites_finished_text:
  "map (\<lambda>st. text_msg (messages st ! 2))
     (drop 3 (states (handleSendMessage [False] 1700000000000 1700000000000
        (Stream [''Hi'', '' there!''] Completes) ''Hello'' (bootstrapped (0::nat))))) =
     ['''', ''Hi there!'', ''Hi there!'', ''Hi there!''] \<and>
   messages (submit_all
      [\<lparr>rendered = [], at1 = 1700000000000, at2 = 1700000000000,
        reply = Stream [''Hi''] Completes, input = ''A''\<rparr>]
      (bootstrapped (0::nat))) ! 2 =
     \<lparr>id_msg = ''model-1700000000000'', role = model, text_msg = ''Hi''\<rparr> \<and>
   messages (submit_all
      [\<lparr>rendered = [], at1 = 1700000000000, at2 = 1700000000000,
        reply = Stream [''Hi''] Completes, input = ''A''\<rparr>,
       \<lparr>rendered = [], at1 = 1700000000000, at2 = 1700000000000,
        reply = Stream [''Bye''] Completes, input = ''B''\<rparr>]
      (bootstrapped (0::nat))) ! 2 =
     \<lparr>id_msg = ''model-1700000000000'', role = model, text_msg = ''Bye''\<rparr> \<and>
   messages (submit_all
      [\<lparr>rendered = [], at1 = 1700000000000, at2 = 1700000000000,
        reply = Stream [''Hi''] Completes, input = ''A''\<rparr>,
       \<lparr>rendered = [], at1 = 1700000000000, at2 = 1700000000000,
        reply = Stream [''Bye''] Completes, input = ''B''\<rparr>]
      (bootstrapped (0::nat))) ! 2 \<noteq>
   messages (submit_all
      [\<lparr>rendered = [], at1 = 1700000000000, at2 = 1700000000000,
        reply = Stream [''Hi''] Completes, input = ''A''\<rparr>]
      (bootstrapped (0::nat))) ! 2"
proof -
  let ?A = "handleSendMessage [] 1700000000000 1700000000000 (Stream [''Hi''] Completes) ''A''"
  let ?B = "handleSendMessage [] 1700000000000 1700000000000 (Stream [''Bye''] Completes) ''B''"
  let ?sA = "final_state (bootstrapped (0::nat)) (?A (bootstrapped 0))"
  have t: "toString 1700000000000 = ''1700000000000''"
    by (simp add: toString_def digits.simps digit_def)
  have skipped: "map (\<lambda>st. text_msg (messages st ! 2))
     (drop 3 (states (handleSendMessage [False] 1700000000000 1700000000000
        (Stream [''Hi'', '' there!''] Completes) ''Hello'' (bootstrapped (0::nat))))) =
     ['''', ''Hi there!'', ''Hi there!'', ''Hi there!'']"
    using handleSendMessage_placeholder_texts [OF bootstrapped_chat, of 0 "[False]"
        1700000000000 1700000000000 "[''Hi'', '' there!'']" "''Hello''"]
    by (simp add: bootstrapped_messages numeral_2_eq_2)
  have a: "messages ?sA =
      [greeting,
       \<lparr>id_msg = ''1700000000000'', role = user, text_msg = ''A''\<rparr>,
       \<lparr>id_msg = ''model-1700000000000'', role = model, text_msg = ''Hi''\<rparr>]"
    by (simp add: handleSendMessage_completes [OF bootstrapped_chat] bootstrapped_messages
        rewrite_text_def greeting_def t)
  have ch: "chat ?sA = Some 0"
    by (simp add: handleSendMessage_chat bootstrapped_chat)
  have b: "messages (final_state ?sA (?B ?sA)) ! 2 =
      \<lparr>id_msg = ''model-1700000000000'', role = model, text_msg = ''Bye''\<rparr>"
    by (simp add: handleSendMessage_completes [OF ch] a rewrite_text_def greeting_def t)
  from a b have "messages (submit_all
      [\<lparr>rendered = [], at1 = 1700000000000, at2 = 1700000000000,
        reply = Stream [''Hi''] Completes, input = ''A''\<rparr>]
      (bootstrapped (0::nat))) ! 2 =
     \<lparr>id_msg = ''model-1700000000000'', role = model, text_msg = ''Hi''\<rparr> \<and>
   messages (submit_all
      [\<lparr>rendered = [], at1 = 1700000000000, at2 = 1700000000000,
        reply = Stream [''Hi''] Completes, input = ''A''\<rparr>,
       \<lparr>rendered = [], at1 = 1700000000000, at2 = 1700000000000,
        reply = Stream [''Bye''] Completes, input = ''B''\<rparr>]
      (bootstrapped (0::nat))) ! 2 =
     \<lparr>id_msg = ''model-1700000000000'', role = model, text_msg = ''Bye''\<rparr>"
    by (simp add: submit_def)
  with skipped show ?thesis by (simp del: submit_all.simps)
qed

text \<open>
  C1, amended. \<open>states\<close> lists the state after each update of a run, so from the fourth
  on (the placeholder has just been appended at position \<open>length (messages s) + 1\<close>) the
  states are: the one with the empty placeholder, one per chunk, and the one in which the
  loading flag is cleared. For a stream that yields \<open>fs\<close> and completes, the placeholder's
  text in these states is the empty text, then for the \<open>k\<close>-th chunk the concatenation
  of the first \<open>r\<close> chunks, where \<open>r\<close> is the number of chunks that had arrived when
  React ran that chunk's update, and at the end the concatenation of all chunks. These
  numbers never decrease, the one of the \<open>k\<close>-th chunk is at least \<open>k\<close> and at most
  \<open>length fs\<close>, and when React runs every update before the next chunk arrives they
  are \<open>1, \<dots>, length fs\<close>: then the texts are exactly the snapshots, one after the
  other. The finished record is the same in every state of any later sequence of
  submissions, provided none of them reads for its placeholder id the clock value this
  one read.
\<close>

theorem C1_snapshots_in_order:
  assumes "chat s = Some c"
  shows "map (\<lambda>st. text_msg (messages st ! (length (messages s) + 1)))
       (drop 3 (states
          (handleSendMessage renders now1 now2 (Stream fs Completes) userMessage s))) =
       [] # map (\<lambda>r. concat (take r fs)) (read_points 0 (length fs) renders) @ [concat fs] \<and>
     length (read_points 0 (length fs) renders) = length fs \<and>
     sorted (read_points 0 (length fs) renders) \<and>
     (\<forall>k < length fs.
        Suc k \<le> read_points 0 (length fs) renders ! k \<and>
        read_points 0 (length fs) renders ! k \<le> length fs) \<and>
     (set renders \<subseteq> {True} \<longrightarrow>
        read_points 0 (length fs) renders = [1..<Suc (length fs)]) \<and>
     messages (final_state s
        (handleSendMessage renders now1 now2 (Stream fs Completes) userMessage s)) !
       (length (messages s) + 1) =
       \<lparr>id_msg = ''model-'' @ toString now2, role = model, text_msg = concat fs\<rparr> \<and>
     ((\<forall>sb \<in> set later. at2 sb \<noteq> now2) \<longrightarrow>
        (\<forall>st \<in> set (submit_all_states later
            (final_state s
               (handleSendMessage renders now1 now2 (Stream fs Completes) userMessage s))).
           messages st ! (length (messages s) + 1) =
             \<lparr>id_msg = ''model-'' @ toString now2, role = model, text_msg = concat fs\<rparr>))"
proof -
  let ?s' = "final_state s
      (handleSendMessage renders now1 now2 (Stream fs Completes) userMessage s)"
  let ?pos = "length (messages s) + 1"
  let ?done = "\<lparr>id_msg = ''model-'' @ toString now2, role = model, text_msg = concat fs\<rparr>"
  let ?reads = "read_points 0 (length fs) renders"
  have len: "length ?reads = length fs"
    by (simp add: read_points_length)
  have bounds: "Suc k \<le> ?reads ! k \<and> ?reads ! k \<le> length fs" if k: "k < length fs" for k
  proof -
    from k have "k < 0 + length fs" by simp
    from read_points_lower [OF this, of renders] have low: "Suc k \<le> ?reads ! k" by simp
    from k len have "?reads ! k \<in> set ?reads" by simp
    then have "?reads ! k \<le> length fs" by (rule read_points_upper)
    with low show ?thesis by simp
  qed
  have every: "?reads = [1..<Suc (length fs)]" if "set renders \<subseteq> {True}"
    using that by (rule read_points_every_render)
  have fin: "messages ?s' ! ?pos = ?done"
    by (simp add: handleSendMessage_completes [OF assms] nth_append rewrite_text_length)
  have inside: "?pos < length (messages ?s')"
    by (simp add: handleSendMessage_completes [OF assms] rewrite_text_length)
  have "messages st ! ?pos = ?done"
    if other: "\<forall>sb \<in> set later. at2 sb \<noteq> now2"
      and st: "st \<in> set (submit_all_states later ?s')" for st
  proof -
    from other fin
    have "\<forall>sb \<in> set later. id_msg (messages ?s' ! ?pos) \<noteq> ''model-'' @ toString (at2 sb)"
      by (auto dest: toString_inj)
    from submit_all_states_frame [OF st inside this] fin show ?thesis by simp
  qed
  with handleSendMessage_placeholder_texts [OF assms, of renders now1 now2 fs userMessage]
    len read_points_sorted [of 0 "length fs" renders] bounds every fin
  show ?thesis by blast
qed

theorem C1_snapshots_in_order_witness:
  "chat (bootstrapped (0::nat)) = Some 0 \<and>
   set [True] \<subseteq> {True} \<and>
   map (\<lambda>st. text_msg (messages st ! (length (messages (bootstrapped (0::nat))) + 1)))
     (drop 3 (states (handleSendMessage [True] 1700000000000 1700000000000
        (Stream [''Hi'', '' there!''] Completes) ''Hello'' (bootstrapped (0::nat))))) =
     ['''', ''Hi'', ''Hi there!'', ''Hi there!''] \<and>
   at2 \<lparr>rendered = [], at1 = 1700000060000, at2 = 1700000060000,
        reply = Stream [''Bye''] Completes, input = ''B''\<rparr> \<noteq> 1700000000000 \<and>
   messages (submit_all
      [\<lparr>rendered = [], at1 = 1700000060000, at2 = 1700000060000,
        reply = Stream [''Bye''] Completes, input = ''B''\<rparr>]
      (final_state (bootstrapped 0) (handleSendMessage [True] 1700000000000 1700000000000
        (Stream [''Hi'', '' there!''] Completes) ''Hello'' (bootstrapped (0::nat))))) ! 2 =
     \<lparr>id_msg = ''model-1700000000000'', role = model, text_msg = ''Hi there!''\<rparr>"
proof -
  let ?s' = "final_state (bootstrapped 0) (handleSendMessage [True] 1700000000000 1700000000000
        (Stream [''Hi'', '' there!''] Completes) ''Hello'' (bootstrapped (0::nat)))"
  let ?later = "[\<lparr>rendered = [], at1 = 1700000060000, at2 = 1700000060000,
        reply = Stream [''Bye''] Completes, input = ''B''\<rparr>]"
  have h: "chat (bootstrapped (0::nat)) = Some 0" by (rule bootstrapped_chat)
  have every: "set [True] \<subseteq> {True}" by simp
  have t: "toString 1700000000000 = ''1700000000000''"
    by (simp add: toString_def digits.simps digit_def)
  have other: "\<forall>sb \<in> set ?later. at2 sb \<noteq> 1700000000000" by simp
  have "chat ?s' = Some 0" by (simp add: handleSendMessage_chat h)
  then have mem: "submit_all ?later ?s' \<in> set (submit_all_states ?later ?s')"
    by (rule submit_all_in_states) simp
  note inst = C1_snapshots_in_order [OF h, of "[True]" 1700000000000 1700000000000
      "[''Hi'', '' there!'']" "''Hello''" ?later]
  from inst have texts:
    "map (\<lambda>st. text_msg (messages st ! (length (messages (bootstrapped (0::nat))) + 1)))
     (drop 3 (states (handleSendMessage [True] 1700000000000 1700000000000
        (Stream [''Hi'', '' there!''] Completes) ''Hello'' (bootstrapped (0::nat))))) =
     [] # map (\<lambda>r. concat (take r [''Hi'', '' there!'']))
       (read_points 0 (length [''Hi'', '' there!'']) [True]) @ [concat [''Hi'', '' there!'']]"
    by (rule conjunct1)
  from inst every have reads:
    "read_points 0 (length [''Hi'', '' there!'']) [True] = [1..<Suc (length [''Hi'', '' there!''])]"
    by blast
  from inst other have "\<forall>st \<in> set (submit_all_states ?later ?s').
      messages st ! (length (messages (bootstrapped (0::nat))) + 1) =
        \<lparr>id_msg = ''model-'' @ toString 1700000000000, role = model,
         text_msg = concat [''Hi'', '' there!'']\<rparr>"
    by blast
  from this mem
  have kept: "messages (submit_all ?later ?s') ! (length (messages (bootstrapped (0::nat))) + 1) =
        \<lparr>id_msg = ''model-'' @ toString 1700000000000, role = model,
         text_msg = concat [''Hi'', '' there!'']\<rparr>"
    by (rule bspec)
  have texts': "map (\<lambda>st. text_msg (messages st ! (length (messages (bootstrapped (0::nat))) + 1)))
     (drop 3 (states (handleSendMessage [True] 1700000000000 1700000000000
        (Stream [''Hi'', '' there!''] Completes) ''Hello'' (bootstrapped (0::nat))))) =
     ['''', ''Hi'', ''Hi there!'', ''Hi there!'']"
    unfolding texts reads by (simp add: upt_rec)
  from kept texts' h show ?thesis
    by (simp add: t bootstrapped_messages numeral_2_eq_2 del: submit_all.simps)
qed

text \<open>
  C2: when the stream raises after any number of chunks, the submission still ends
  normally; the placeholder, the last record of the store, carries the fixed text
  \<open>Sorry, I encountered an error.\<close> and not the accumulated chunks, the error flag holds
  the generic message and the loading flag is cleared.
\<close>

theorem C2_stream_failure:
  "chat s = Some c \<Longrightarrow>
     settled (handleSendMessage renders now1 now2 (Stream fs (Raises e)) userMessage s) = Normal \<and>
     length (messages (final_state s
        (handleSendMessage renders now1 now2 (Stream fs (Raises e)) userMessage s))) =
       length (messages s) + 2 \<and>
     messages (final_state s
        (handleSendMessage renders now1 now2 (Stream fs (Raises e)) userMessage s)) !
        (length (messages s) + 1) =
       \<lparr>id_msg = ''model-'' @ toString now2, role = model,
        text_msg = ''Sorry, I encountered an error.''\<rparr> \<and>
     error (final_state s
        (handleSendMessage renders now1 now2 (Stream fs (Raises e)) userMessage s)) =
       Some ''An error occurred while getting a response. Please try again.'' \<and>
     isLoading (final_state s
        (handleSendMessage renders now1 now2 (Stream fs (Raises e)) userMessage s)) = False"
  by (simp add: handleSendMessage_raises handleSendMessage_settled rewrite_text_length
      nth_append)

theorem C2_stream_failure_witness:
  "chat (bootstrapped (0::nat)) = Some 0 \<and>
   settled (handleSendMessage [] 1700000000000 1700000000000
        (Stream [''Hi'', '' there!''] (Raises (JsError ''network''))) ''X''
        (bootstrapped (0::nat))) = Normal \<and>
   messages (final_state (bootstrapped 0)
     (handleSendMessage [] 1700000000000 1700000000000
        (Stream [''Hi'', '' there!''] (Raises (JsError ''network''))) ''X''
        (bootstrapped (0::nat)))) ! 2 =
     \<lparr>id_msg = ''model-1700000000000'', role = model,
      text_msg = ''Sorry, I encountered an error.''\<rparr> \<and>
   error (final_state (bootstrapped 0)
     (handleSendMessage [] 1700000000000 1700000000000
        (Stream [''Hi'', '' there!''] (Raises (JsError ''network''))) ''X''
        (bootstrapped (0::nat)))) =
     Some ''An error occurred while getting a response. Please try again.'' \<and>
   isLoading (final_state (bootstrapped 0)
     (handleSendMessage [] 1700000000000 1700000000000
        (Stream [''Hi'', '' there!''] (Raises (JsError ''network''))) ''X''
        (bootstrapped (0::nat)))) = False"
proof -
  have h: "chat (bootstrapped (0::nat)) = Some 0"
    by (simp add: bootstrapped_chat)
  have t: "toString 1700000000000 = ''1700000000000''"
    by (simp add: toString_def digits.simps digit_def)
  from C2_stream_failure [OF h, of "[]" 1700000000000 1700000000000 "[''Hi'', '' there!'']"
      "JsError ''network''" "''X''"] h
  show ?thesis by (simp add: t bootstrapped_messages numeral_2_eq_2)
qed

text \<open>
  C3: after a successful bootstrap and any sequence of \<open>N\<close> successful submissions the
  store holds exactly \<open>1 + 2 * N\<close> records: the greeting first, then for the \<open>k\<close>-th
  submission its user record (id, role and submitted text) at position \<open>2 * k + 1\<close>
  and right after it a model record with that submission's placeholder id; the loading
  flag is false and the error flag is null.
\<close>

theorem C3_store_after_submissions:
  assumes "\<forall>sb \<in> set subs. ending (reply sb) = Completes"
  shows "length (messages (submit_all subs (bootstrapped c))) = 1 + 2 * length subs \<and>
     messages (submit_all subs (bootstrapped c)) ! 0 = greeting \<and>
     (\<forall>k < length subs.
        messages (submit_all subs (bootstrapped c)) ! (2 * k + 1) =
          \<lparr>id_msg = toString (at1 (subs ! k)), role = user, text_msg = input (subs ! k)\<rparr> \<and>
        id_msg (messages (submit_all subs (bootstrapped c)) ! (2 * k + 2)) =
          ''model-'' @ toString (at2 (subs ! k)) \<and>
        role (messages (submit_all subs (bootstrapped c)) ! (2 * k + 2)) = model) \<and>
     isLoading (submit_all subs (bootstrapped c)) = False \<and>
     error (submit_all subs (bootstrapped c)) = None"
proof -
  let ?s = "submit_all subs (bootstrapped c)"
  have ch: "chat (bootstrapped c) = Some c" by (rule bootstrapped_chat)
  have len: "length (messages ?s) = 1 + 2 * length subs"
    by (simp add: submit_all_length [OF ch] bootstrapped_messages)
  have first: "messages ?s ! 0 = greeting"
    using submit_all_frame [of 0 "bootstrapped c" subs]
    by (simp add: bootstrapped_messages greeting_def)
  have records: "messages ?s ! (2 * k + 1) =
          \<lparr>id_msg = toString (at1 (subs ! k)), role = user, text_msg = input (subs ! k)\<rparr> \<and>
        id_msg (messages ?s ! (2 * k + 2)) = ''model-'' @ toString (at2 (subs ! k)) \<and>
        role (messages ?s ! (2 * k + 2)) = model" if k: "k < length subs" for k
  proof -
    have u: "messages ?s ! (2 * k + 1) =
        \<lparr>id_msg = toString (at1 (subs ! k)), role = user, text_msg = input (subs ! k)\<rparr>"
      using submit_all_user_record [OF ch k] by (simp add: bootstrapped_messages)
    have inside: "2 * k + 2 < length (messages ?s)"
      using k len by simp
    have "ids_and_roles (bootstrapped c) = [(''init'', model)]"
      by (simp add: ids_and_roles_def bootstrapped_messages greeting_def)
    then have "ids_and_roles ?s = (''init'', model) #
        concat (map (\<lambda>sb. [(toString (at1 sb), user), (''model-'' @ toString (at2 sb), model)]) subs)"
      by (simp add: submit_all_shape [OF ch])
    then have "ids_and_roles ?s ! (2 * k + 2) = (''model-'' @ toString (at2 (subs ! k)), model)"
      using pairs_nth [OF k, of "\<lambda>sb. (toString (at1 sb), user)"
          "\<lambda>sb. (''model-'' @ toString (at2 sb), model)"]
      by simp
    with inside have "id_msg (messages ?s ! (2 * k + 2)) = ''model-'' @ toString (at2 (subs ! k)) \<and>
        role (messages ?s ! (2 * k + 2)) = model"
      by (simp add: ids_and_roles_nth)
    with u show ?thesis by simp
  qed
  have flags: "isLoading ?s = False \<and> error ?s = None"
  proof (cases "subs = []")
    case True
    then show ?thesis by (simp add: bootstrapped_eq)
  next
    case False
    from submit_all_flags [OF ch False assms] show ?thesis .
  qed
  from len first records flags show ?thesis by blast
qed

theorem C3_store_after_submissions_witness:
  "ending (reply \<lparr>rendered = [], at1 = 1700000000000, at2 = 1700000000000,
      reply = Stream [''Hi'', '' there!''] Completes, input = ''Hello''\<rparr>) = Completes \<and>
   ending (reply \<lparr>rendered = [], at1 = 1700000060000, at2 = 1700000060001,
      reply = Stream [] Completes, input = ''Bye''\<rparr>) = Completes \<and>
   length (messages (submit_all
     [\<lparr>rendered = [], at1 = 1700000000000, at2 = 1700000000000,
       reply = Stream [''Hi'', '' there!''] Completes, input = ''Hello''\<rparr>,
      \<lparr>rendered = [], at1 = 1700000060000, at2 = 1700000060001,
       reply = Stream [] Completes, input = ''Bye''\<rparr>] (bootstrapped (0::nat)))) = 5 \<and>
   messages (submit_all
     [\<lparr>rendered = [], at1 = 1700000000000, at2 = 1700000000000,
       reply = Stream [''Hi'', '' there!''] Completes, input = ''Hello''\<rparr>,
      \<lparr>rendered = [], at1 = 1700000060000, at2 = 1700000060001,
       reply = Stream [] Completes, input = ''Bye''\<rparr>] (bootstrapped (0::nat))) ! 0 = greeting \<and>
   messages (submit_all
     [\<lparr>rendered = [], at1 = 1700000000000, at2 = 1700000000000,
       reply = Stream [''Hi'', '' there!''] Completes, input = ''Hello''\<rparr>,
      \<lparr>rendered = [], at1 = 1700000060000, at2 = 1700000060001,
       reply = Stream [] Completes, input = ''Bye''\<rparr>] (bootstrapped (0::nat))) ! 3 =
     \<lparr>id_msg = ''1700000060000'', role = user, text_msg = ''Bye''\<rparr> \<and>
   id_msg (messages (submit_all
     [\<lparr>rendered = [], at1 = 1700000000000, at2 = 1700000000000,
       reply = Stream [''Hi'', '' there!''] Completes, input = ''Hello''\<rparr>,
      \<lparr>rendered = [], at1 = 1700000060000, at2 = 1700000060001,
       reply = Stream [] Completes, input = ''Bye''\<rparr>] (bootstrapped (0::nat))) ! 4) =
     ''model-1700000060001''"
proof -
  let ?subs = "[\<lparr>rendered = [], at1 = 1700000000000, at2 = 1700000000000,
       reply = Stream [''Hi'', '' there!''] Completes, input = ''Hello''\<rparr>,
      \<lparr>rendered = [], at1 = 1700000060000, at2 = 1700000060001,
       reply = Stream [] Completes, input = ''Bye''\<rparr>]"
  have h: "\<forall>sb \<in> set ?subs. ending (reply sb) = Completes" by simp
  have t1: "toString 1700000060000 = ''1700000060000''"
    by (simp add: toString_def digits.simps digit_def)
  have t2: "toString 1700000060001 = ''1700000060001''"
    by (simp add: toString_def digits.simps digit_def)
  note inst = C3_store_after_submissions [OF h, of "0::nat"]
  from inst have len: "length (messages (submit_all ?subs (bootstrapped (0::nat)))) = 1 + 2 * length ?subs"
    by (rule conjunct1)
  from inst have first: "messages (submit_all ?subs (bootstrapped (0::nat))) ! 0 = greeting"
    by blast
  from inst have "\<forall>k < length ?subs.
        messages (submit_all ?subs (bootstrapped (0::nat))) ! (2 * k + 1) =
          \<lparr>id_msg = toString (at1 (?subs ! k)), role = user, text_msg = input (?subs ! k)\<rparr> \<and>
        id_msg (messages (submit_all ?subs (bootstrapped (0::nat))) ! (2 * k + 2)) =
          ''model-'' @ toString (at2 (?subs ! k)) \<and>
        role (messages (submit_all ?subs (bootstrapped (0::nat))) ! (2 * k + 2)) = model"
    by blast
  from this [rule_format, of 1]
  have second: "messages (submit_all ?subs (bootstrapped (0::nat))) ! 3 =
          \<lparr>id_msg = ''1700000060000'', role = user, text_msg = ''Bye''\<rparr> \<and>
        id_msg (messages (submit_all ?subs (bootstrapped (0::nat))) ! 4) = ''model-1700000060001''"
    by (simp add: t1 t2 del: submit_all.simps)
  from h len first second show ?thesis
    by (simp del: submit_all.simps)
qed

text \<open>
  C4, as the code has it. The two ids of a submission are renderings of the clock: the
  user id is the decimal reading and the placeholder id is that of a second reading behind
  the prefix \<open>model-\<close>. They always differ from each other and from the greeting's id
  \<open>init\<close>. Two submissions that read the same clock value get the same id, so the ids of
  the store are not unique in every session: here the second submission reads the clock
  value the first one read.
\<close>

theorem C4_same_clock_reading_repeats_ids:
  "\<not> distinct (map id_msg (messages (submit_all
      [\<lparr>rendered = [], at1 = 1700000000000, at2 = 1700000000000, reply = Stream [''Hi''] Completes,
        input = ''A''\<rparr>,
       \<lparr>rendered = [], at1 = 1700000000000, at2 = 1700000000000, reply = Stream [''Bye''] Completes,
        input = ''B''\<rparr>]
      (bootstrapped (0::nat)))))"
  by (simp add: submit_all_ids [OF bootstrapped_chat] bootstrapped_messages del: submit_all.simps)

text \<open>
  C4, amended: in every submission the user id and the placeholder id differ from each
  other and from the greeting's id; and in a session in which no two submissions read the
  same clock value for their user ids, nor for their placeholder ids, the ids of the
  store are pairwise distinct in every state the session goes through.
\<close>

theorem C4_ids_unique_for_distinct_clock_readings:
  "toString now1 \<noteq> ''model-'' @ toString now2 \<and>
   toString now1 \<noteq> ''init'' \<and>
   ''model-'' @ toString now2 \<noteq> ''init'' \<and>
   (distinct (map at1 subs) \<and> distinct (map at2 subs) \<longrightarrow>
      (\<forall>st \<in> set (session_states startChat subs). distinct (map id_msg (messages st))))"
proof -
  have "distinct (map id_msg (messages st))"
    if d: "distinct (map at1 subs)" "distinct (map at2 subs)"
      and st: "st \<in> set (session_states startChat subs)" for st
  proof -
    let ?final = "submit_all subs (final_state initial_state (bootstrap startChat initial_state))"
    have "distinct (map id_msg (messages ?final))"
    proof (cases startChat)
      case (Inl e)
      then show ?thesis by (simp add: session_final_ids)
    next
      case (Inr c)
      with clock_ids_distinct [OF d] show ?thesis
        by (simp add: session_final_ids del: distinct.simps)
    qed
    with session_extends_last [OF st] show ?thesis by (rule extends_distinct)
  qed
  then show ?thesis
    using toString_not_model [of now1 "toString now2"] toString_not_init [of now1] by auto
qed

theorem C4_ids_unique_for_distinct_clock_readings_witness:
  "distinct (map at1
      [\<lparr>rendered = [], at1 = 1700000000000, at2 = 1700000000000, reply = Stream [''Hi''] Completes,
        input = ''A''\<rparr>,
       \<lparr>rendered = [], at1 = 1700000060000, at2 = 1700000060001, reply = Stream [''Bye''] (Raises (JsError ''network'')),
        input = ''B''\<rparr>]) \<and>
   distinct (map at2
      [\<lparr>rendered = [], at1 = 1700000000000, at2 = 1700000000000, reply = Stream [''Hi''] Completes,
        input = ''A''\<rparr>,
       \<lparr>rendered = [], at1 = 1700000060000, at2 = 1700000060001, reply = Stream [''Bye''] (Raises (JsError ''network'')),
        input = ''B''\<rparr>]) \<and>
   distinct (map id_msg (messages (submit_all
      [\<lparr>rendered = [], at1 = 1700000000000, at2 = 1700000000000, reply = Stream [''Hi''] Completes,
        input = ''A''\<rparr>,
       \<lparr>rendered = [], at1 = 1700000060000, at2 = 1700000060001, reply = Stream [''Bye''] (Raises (JsError ''network'')),
        input = ''B''\<rparr>]
      (bootstrapped (0::nat))))) \<and>
   map id_msg (messages (submit_all
      [\<lparr>rendered = [], at1 = 1700000000000, at2 = 1700000000000, reply = Stream [''Hi''] Completes,
        input = ''A''\<rparr>,
       \<lparr>rendered = [], at1 = 1700000060000, at2 = 1700000060001, reply = Stream [''Bye''] (Raises (JsError ''network'')),
        input = ''B''\<rparr>]
      (bootstrapped (0::nat)))) =
     [''init'', ''1700000000000'', ''model-1700000000000'', ''1700000060000'', ''model-1700000060001'']"
proof -
  let ?subs = "[\<lparr>rendered = [], at1 = 1700000000000, at2 = 1700000000000, reply = Stream [''Hi''] Completes,
        input = ''A''\<rparr>,
       \<lparr>rendered = [], at1 = 1700000060000, at2 = 1700000060001, reply = Stream [''Bye''] (Raises (JsError ''network'')),
        input = ''B''\<rparr>]"
  have h: "distinct (map at1 ?subs) \<and> distinct (map at2 ?subs)" by simp
  have "last (session_states (Inr (0::nat)) ?subs) \<in> set (session_states (Inr (0::nat)) ?subs)"
    by (rule last_in_set) (simp add: session_states_def)
  then have mem: "submit_all ?subs (bootstrapped (0::nat)) \<in> set (session_states (Inr 0) ?subs)"
    by (simp only: session_last bootstrap_final sum.case)
  from C4_ids_unique_for_distinct_clock_readings [of 0 0 ?subs "Inr (0::nat)"] h
  have "\<forall>st \<in> set (session_states (Inr (0::nat)) ?subs). distinct (map id_msg (messages st))"
    by blast
  from this mem have d: "distinct (map id_msg (messages (submit_all ?subs (bootstrapped (0::nat)))))"
    by (rule bspec)
  have t: "toString 1700000000000 = ''1700000000000''" "toString 1700000060000 = ''1700000060000''"
    "toString 1700000060001 = ''1700000060001''"
    by (simp_all add: toString_def digits.simps digit_def)
  have "map id_msg (messages (submit_all ?subs (bootstrapped (0::nat)))) =
     [''init'', ''1700000000000'', ''model-1700000000000'', ''1700000060000'', ''model-1700000060001'']"
    by (simp add: submit_all_ids [OF bootstrapped_chat] bootstrapped_messages greeting_def t
        del: submit_all.simps)
  with h d show ?thesis by (simp del: submit_all.simps distinct.simps)
qed

text \<open>
  C5: every update of the loop takes the store it finds to the store with the same
  number of records, in which only records whose id is the placeholder id are rewritten,
  and only in their text: every other record is the record that was there (same id, role
  and text), and a rewritten record keeps its id and its role; the handle and the flags
  are not touched. Which text is written depends on when React runs the update and is
  left open here. Along a whole session the ids and roles of an earlier store are always
  an initial segment of those of a later store: records are only added at the end and
  never change places.
\<close>

theorem C5_fragment_update_frame:
  "(\<forall>k < queued + length fs.
      (\<exists>t. for_await m acc queued fs renders s ! k =
         setMessages (rewrite_text m t) ((s # for_await m acc queued fs renders s) ! k)) \<and>
      chat (for_await m acc queued fs renders s ! k) =
        chat ((s # for_await m acc queued fs renders s) ! k) \<and>
      isLoading (for_await m acc queued fs renders s ! k) =
        isLoading ((s # for_await m acc queued fs renders s) ! k) \<and>
      error (for_await m acc queued fs renders s ! k) =
        error ((s # for_await m acc queued fs renders s) ! k) \<and>
      length (messages (for_await m acc queued fs renders s ! k)) =
        length (messages ((s # for_await m acc queued fs renders s) ! k)) \<and>
      (\<forall>i < length (messages ((s # for_await m acc queued fs renders s) ! k)).
         (id_msg (messages ((s # for_await m acc queued fs renders s) ! k) ! i) \<noteq> m \<longrightarrow>
            messages (for_await m acc queued fs renders s ! k) ! i =
              messages ((s # for_await m acc queued fs renders s) ! k) ! i) \<and>
         id_msg (messages (for_await m acc queued fs renders s ! k) ! i) =
           id_msg (messages ((s # for_await m acc queued fs renders s) ! k) ! i) \<and>
         role (messages (for_await m acc queued fs renders s ! k) ! i) =
           role (messages ((s # for_await m acc queued fs renders s) ! k) ! i))) \<and>
   sorted_wrt extends (session_states startChat subs)"
proof -
  have "(\<exists>t. for_await m acc queued fs renders s ! k =
         setMessages (rewrite_text m t) ((s # for_await m acc queued fs renders s) ! k)) \<and>
      chat (for_await m acc queued fs renders s ! k) =
        chat ((s # for_await m acc queued fs renders s) ! k) \<and>
      isLoading (for_await m acc queued fs renders s ! k) =
        isLoading ((s # for_await m acc queued fs renders s) ! k) \<and>
      error (for_await m acc queued fs renders s ! k) =
        error ((s # for_await m acc queued fs renders s) ! k) \<and>
      length (messages (for_await m acc queued fs renders s ! k)) =
        length (messages ((s # for_await m acc queued fs renders s) ! k)) \<and>
      (\<forall>i < length (messages ((s # for_await m acc queued fs renders s) ! k)).
         (id_msg (messages ((s # for_await m acc queued fs renders s) ! k) ! i) \<noteq> m \<longrightarrow>
            messages (for_await m acc queued fs renders s ! k) ! i =
              messages ((s # for_await m acc queued fs renders s) ! k) ! i) \<and>
         id_msg (messages (for_await m acc queued fs renders s ! k) ! i) =
           id_msg (messages ((s # for_await m acc queued fs renders s) ! k) ! i) \<and>
         role (messages (for_await m acc queued fs renders s ! k) ! i) =
           role (messages ((s # for_await m acc queued fs renders s) ! k) ! i))"
    if k: "k < queued + length fs" for k
  proof -
    let ?before = "(s # for_await m acc queued fs renders s) ! k"
    let ?after = "for_await m acc queued fs renders s ! k"
    let ?t = "acc @ concat (take (read_points queued (length fs) renders ! k) fs)"
    have step: "?after = setMessages (rewrite_text m ?t) ?before"
      by (rule for_await_step [OF k])
    then have ex: "\<exists>t. ?after = setMessages (rewrite_text m t) ?before" ..
    have flags: "chat ?after = chat ?before \<and> isLoading ?after = isLoading ?before \<and>
        error ?after = error ?before"
      by (subst (1 2 3) step) (simp add: setMessages_def)
    have msgs: "messages ?after = rewrite_text m ?t (messages ?before)"
      by (subst step) (simp add: setMessages_def)
    have frame: "length (messages ?after) = length (messages ?before) \<and>
      (\<forall>i < length (messages ?before).
         (id_msg (messages ?before ! i) \<noteq> m \<longrightarrow> messages ?after ! i = messages ?before ! i) \<and>
         id_msg (messages ?after ! i) = id_msg (messages ?before ! i) \<and>
         role (messages ?after ! i) = role (messages ?before ! i))"
      unfolding msgs by (simp add: rewrite_text_length rewrite_text_nth)
    from ex flags frame show ?thesis by blast
  qed
  then show ?thesis using session_grows by blast
qed

theorem C5_fragment_update_frame_witness:
  "0 < 0 + length [''Hi'', '' there!''] \<and>
   length (messages (for_await ''model-1700000000000'' [] 0 [''Hi'', '' there!''] [False]
     \<lparr>chat = Some (0::nat),
      messages = [greeting,
        \<lparr>id_msg = ''1700000000000'', role = user, text_msg = ''Hello''\<rparr>,
        \<lparr>id_msg = ''model-1700000000000'', role = model, text_msg = []\<rparr>],
      isLoading = True, error = None\<rparr> ! 0)) = 3 \<and>
   messages (for_await ''model-1700000000000'' [] 0 [''Hi'', '' there!''] [False]
     \<lparr>chat = Some (0::nat),
      messages = [greeting,
        \<lparr>id_msg = ''1700000000000'', role = user, text_msg = ''Hello''\<rparr>,
        \<lparr>id_msg = ''model-1700000000000'', role = model, text_msg = []\<rparr>],
      isLoading = True, error = None\<rparr> ! 0) ! 1 =
     \<lparr>id_msg = ''1700000000000'', role = user, text_msg = ''Hello''\<rparr> \<and>
   id_msg (messages (for_await ''model-1700000000000'' [] 0 [''Hi'', '' there!''] [False]
     \<lparr>chat = Some (0::nat),
      messages = [greeting,
        \<lparr>id_msg = ''1700000000000'', role = user, text_msg = ''Hello''\<rparr>,
        \<lparr>id_msg = ''model-1700000000000'', role = model, text_msg = []\<rparr>],
      isLoading = True, error = None\<rparr> ! 0) ! 2) = ''model-1700000000000''"
proof -
  let ?s = "\<lparr>chat = Some (0::nat),
      messages = [greeting,
        \<lparr>id_msg = ''1700000000000'', role = user, text_msg = ''Hello''\<rparr>,
        \<lparr>id_msg = ''model-1700000000000'', role = model, text_msg = []\<rparr>],
      isLoading = True, error = None\<rparr>"
  let ?loop = "for_await ''model-1700000000000'' [] 0 [''Hi'', '' there!''] [False] ?s"
  have h: "0 < 0 + length [''Hi'', '' there!'']" by simp
  from C5_fragment_update_frame
    [of 0 "[''Hi'', '' there!'']" "''model-1700000000000''" "[]" "[False]" ?s "Inr 0" "[]"]
  have "\<forall>k < 0 + length [''Hi'', '' there!''].
      length (messages (?loop ! k)) = length (messages ((?s # ?loop) ! k)) \<and>
      (\<forall>i < length (messages ((?s # ?loop) ! k)).
         (id_msg (messages ((?s # ?loop) ! k) ! i) \<noteq> ''model-1700000000000'' \<longrightarrow>
            messages (?loop ! k) ! i = messages ((?s # ?loop) ! k) ! i) \<and>
         id_msg (messages (?loop ! k) ! i) = id_msg (messages ((?s # ?loop) ! k) ! i) \<and>
         role (messages (?loop ! k) ! i) = role (messages ((?s # ?loop) ! k) ! i))"
    by blast
  from this [rule_format, OF h]
  have len: "length (messages (?loop ! 0)) = length (messages ((?s # ?loop) ! 0))"
    and frame: "\<And>i. i < length (messages ((?s # ?loop) ! 0)) \<Longrightarrow>
         (id_msg (messages ((?s # ?loop) ! 0) ! i) \<noteq> ''model-1700000000000'' \<longrightarrow>
            messages (?loop ! 0) ! i = messages ((?s # ?loop) ! 0) ! i) \<and>
         id_msg (messages (?loop ! 0) ! i) = id_msg (messages ((?s # ?loop) ! 0) ! i)"
    by blast+
  have before: "(?s # ?loop) ! 0 = ?s" by simp
  from frame [of 1] have one: "messages (?loop ! 0) ! 1 =
      \<lparr>id_msg = ''1700000000000'', role = user, text_msg = ''Hello''\<rparr>"
    unfolding before by simp
  from frame [of 2] have two: "id_msg (messages (?loop ! 0) ! 2) = ''model-1700000000000''"
    unfolding before by simp
  from len have three: "length (messages (?loop ! 0)) = 3"
    unfolding before by simp
  from h one two three show ?thesis by simp
qed

text \<open>
  C6: when \<^verbatim>\<open>startChat()\<close> throws, the bootstrap effect still ends normally and its only
  state update sets the error banner to the fixed message. From the initial state the
  store stays empty and the handle stays unset, so a later submission does nothing.
\<close>

theorem C6_bootstrap_failure:
  "settled (bootstrap (Inl e) s) = Normal \<and>
   final_state s (bootstrap (Inl e) s) =
     s\<lparr>error := Some ''Failed to initialize the chat service. Please check your API key.''\<rparr> \<and>
   final_state initial_state (bootstrap (Inl e) (initial_state :: 'c app_state)) =
     \<lparr>chat = None, messages = [], isLoading = False,
      error = Some ''Failed to initialize the chat service. Please check your API key.''\<rparr> \<and>
   states (handleSendMessage renders now1 now2 stream userMessage
     (final_state initial_state (bootstrap (Inl e) (initial_state :: 'c app_state)))) = [] \<and>
   requests (handleSendMessage renders now1 now2 stream userMessage
     (final_state initial_state (bootstrap (Inl e) (initial_state :: 'c app_state)))) = []"
  by (simp add: final_state_def bootstrap_def bootstrap_try_def bootstrap_catch_def initial_state_def setError_def
      handleSendMessage_def)

text \<open>
  C7: for every input text, when the handle is unset the submission does nothing: the
  component state (message store, loading flag, error flag) is what it was, no state update
  is performed and \<^verbatim>\<open>chat.sendMessageStream\<close> is not called.
\<close>

theorem C7_unset_handle_noop:
  "chat s = None \<Longrightarrow>
     final_state s (handleSendMessage renders now1 now2 stream userMessage s) = s \<and>
     states (handleSendMessage renders now1 now2 stream userMessage s) = [] \<and>
     requests (handleSendMessage renders now1 now2 stream userMessage s) = [] \<and>
     settled (handleSendMessage renders now1 now2 stream userMessage s) = Normal"
  by (simp add: handleSendMessage_unset final_state_def)

theorem C7_unset_handle_noop_witness:
  "chat (final_state initial_state (bootstrap (Inl (JsError ''no API key'')) (initial_state :: nat app_state))) = None \<and>
   final_state
     (final_state initial_state (bootstrap (Inl (JsError ''no API key'')) initial_state))
     (handleSendMessage [] 1700000000000 1700000000000 (Stream [''Hi''] Completes) ''Hello''
       (final_state initial_state (bootstrap (Inl (JsError ''no API key'')) (initial_state :: nat app_state)))) =
   \<lparr>chat = None, messages = [], isLoading = False,
    error = Some ''Failed to initialize the chat service. Please check your API key.''\<rparr>"
  using C7_unset_handle_noop
    [of "final_state initial_state (bootstrap (Inl (JsError ''no API key'')) (initial_state :: nat app_state))"
        "[]" 1700000000000 1700000000000 "Stream [''Hi''] Completes" "''Hello''"]
  by (simp add: final_state_def bootstrap_def bootstrap_try_def bootstrap_catch_def initial_state_def setError_def)

text \<open>
  C8: the input \<open>Hello\<close> with a stream that yields \<open>Hi\<close> and \<open> there!\<close> and completes:
  the store grows by exactly two records, the user record with the text \<open>Hello\<close> and right
  after it the model record with the text \<open>Hi there!\<close>; the loading flag is false and the
  error flag is null.
\<close>

theorem C8_hello_scenario:
  "chat s = Some c \<Longrightarrow>
     drop (length (messages s))
       (messages (final_state s
          (handleSendMessage renders now1 now2 (Stream [''Hi'', '' there!''] Completes) ''Hello'' s))) =
       [\<lparr>id_msg = toString now1, role = user, text_msg = ''Hello''\<rparr>,
        \<lparr>id_msg = ''model-'' @ toString now2, role = model, text_msg = ''Hi there!''\<rparr>] \<and>
     length (messages (final_state s
          (handleSendMessage renders now1 now2 (Stream [''Hi'', '' there!''] Completes) ''Hello'' s))) =
       length (messages s) + 2 \<and>
     isLoading (final_state s
          (handleSendMessage renders now1 now2 (Stream [''Hi'', '' there!''] Completes) ''Hello'' s)) = False \<and>
     error (final_state s
          (handleSendMessage renders now1 now2 (Stream [''Hi'', '' there!''] Completes) ''Hello'' s)) = None"
  by (simp add: handleSendMessage_completes rewrite_text_length)

theorem C8_hello_scenario_witness:
  "chat (bootstrapped (0::nat)) = Some 0 \<and>
   drop (length (messages (bootstrapped (0::nat))))
     (messages (final_state (bootstrapped 0)
        (handleSendMessage [] 1700000000000 1700000000001 (Stream [''Hi'', '' there!''] Completes)
           ''Hello'' (bootstrapped (0::nat))))) =
     [\<lparr>id_msg = ''1700000000000'', role = user, text_msg = ''Hello''\<rparr>,
      \<lparr>id_msg = ''model-1700000000001'', role = model, text_msg = ''Hi there!''\<rparr>] \<and>
   length (messages (final_state (bootstrapped 0)
        (handleSendMessage [] 1700000000000 1700000000001 (Stream [''Hi'', '' there!''] Completes)
           ''Hello'' (bootstrapped (0::nat))))) = 3 \<and>
   isLoading (final_state (bootstrapped 0)
        (handleSendMessage [] 1700000000000 1700000000001 (Stream [''Hi'', '' there!''] Completes)
           ''Hello'' (bootstrapped (0::nat)))) = False \<and>
   error (final_state (bootstrapped 0)
        (handleSendMessage [] 1700000000000 1700000000001 (Stream [''Hi'', '' there!''] Completes)
           ''Hello'' (bootstrapped (0::nat)))) = None"
proof -
  have h: "chat (bootstrapped (0::nat)) = Some 0"
    by (simp add: bootstrapped_chat)
  have t1: "toString 1700000000000 = ''1700000000000''"
    by (simp add: toString_def digits.simps digit_def)
  have t2: "toString 1700000000001 = ''1700000000001''"
    by (simp add: toString_def digits.simps digit_def)
  from C8_hello_scenario [OF h, of "[]" 1700000000000 1700000000001] h
  show ?thesis by (simp add: t1 t2 bootstrapped_messages)
qed

text \<open>
  C9: a stream that completes without a single chunk leaves the placeholder in the store
  with the empty text; nothing else in the store is touched, the loading flag is cleared
  and the error flag is null.
\<close>

theorem C9_empty_stream:
  "chat s = Some c \<Longrightarrow>
     final_state s (handleSendMessage renders now1 now2 (Stream [] Completes) userMessage s) =
       s\<lparr>messages := messages s @
            [\<lparr>id_msg = toString now1, role = user, text_msg = userMessage\<rparr>,
             \<lparr>id_msg = ''model-'' @ toString now2, role = model, text_msg = []\<rparr>],
         isLoading := False, error := None\<rparr>"
  by (simp add: handleSendMessage_completes)

theorem C9_empty_stream_witness:
  "chat (bootstrapped (0::nat)) = Some 0 \<and>
   final_state (bootstrapped 0)
     (handleSendMessage [] 1700000000000 1700000000000 (Stream [] Completes) ''Hello''
        (bootstrapped (0::nat))) =
   \<lparr>chat = Some 0,
    messages =
      [\<lparr>id_msg = ''init'', role = model, text_msg = ''Hello! How can I assist you today?''\<rparr>,
       \<lparr>id_msg = ''1700000000000'', role = user, text_msg = ''Hello''\<rparr>,
       \<lparr>id_msg = ''model-1700000000000'', role = model, text_msg = []\<rparr>],
    isLoading = False, error = None\<rparr>"
proof -
  have h: "chat (bootstrapped (0::nat)) = Some 0"
    by (simp add: bootstrapped_chat)
  have t: "toString 1700000000000 = ''1700000000000''"
    by (simp add: toString_def digits.simps digit_def)
  from C9_empty_stream [OF h, of "[]" 1700000000000 1700000000000 "''Hello''"] h
  show ?thesis by (simp add: t bootstrapped_eq greeting_def)
qed

text \<open>
  C10, as the code has it. The error text is written by id, like every chunk. Here the
  first submission ends with \<open>Hi\<close> in its placeholder (position 2); the second reads the
  same clock value and its stream fails: the record of the earlier submission is changed
  to the error text as well.
\<close>

theorem C10_failure_rewrites_earlier_record:
  "messages (submit_all
      [\<lparr>rendered = [], at1 = 1700000000000, at2 = 1700000000000, reply = Stream [''Hi''] Completes,
        input = ''A''\<rparr>]
      (bootstrapped (0::nat))) ! 2 =
     \<lparr>id_msg = ''model-1700000000000'', role = model, text_msg = ''Hi''\<rparr> \<and>
   messages (submit_all
      [\<lparr>rendered = [], at1 = 1700000000000, at2 = 1700000000000, reply = Stream [''Hi''] Completes,
        input = ''A''\<rparr>,
       \<lparr>rendered = [], at1 = 1700000000000, at2 = 1700000000000,
        reply = Stream [] (Raises (JsError ''network'')), input = ''B''\<rparr>]
      (bootstrapped (0::nat))) ! 2 =
     \<lparr>id_msg = ''model-1700000000000'', role = model,
      text_msg = ''Sorry, I encountered an error.''\<rparr> \<and>
   messages (submit_all
      [\<lparr>rendered = [], at1 = 1700000000000, at2 = 1700000000000, reply = Stream [''Hi''] Completes,
        input = ''A''\<rparr>,
       \<lparr>rendered = [], at1 = 1700000000000, at2 = 1700000000000,
        reply = Stream [] (Raises (JsError ''network'')), input = ''B''\<rparr>]
      (bootstrapped (0::nat))) ! 2 \<noteq>
   messages (submit_all
      [\<lparr>rendered = [], at1 = 1700000000000, at2 = 1700000000000, reply = Stream [''Hi''] Completes,
        input = ''A''\<rparr>]
      (bootstrapped (0::nat))) ! 2"
proof -
  let ?A = "handleSendMessage [] 1700000000000 1700000000000 (Stream [''Hi''] Completes) ''A''"
  let ?B = "handleSendMessage [] 1700000000000 1700000000000
      (Stream [] (Raises (JsError ''network''))) ''B''"
  let ?sA = "final_state (bootstrapped (0::nat)) (?A (bootstrapped 0))"
  have t: "toString 1700000000000 = ''1700000000000''"
    by (simp add: toString_def digits.simps digit_def)
  have a: "messages ?sA =
      [greeting,
       \<lparr>id_msg = ''1700000000000'', role = user, text_msg = ''A''\<rparr>,
       \<lparr>id_msg = ''model-1700000000000'', role = model, text_msg = ''Hi''\<rparr>]"
    by (simp add: handleSendMessage_completes [OF bootstrapped_chat] bootstrapped_messages
        rewrite_text_def greeting_def t)
  have ch: "chat ?sA = Some 0"
    by (simp add: handleSendMessage_chat bootstrapped_chat)
  have b: "messages (final_state ?sA (?B ?sA)) ! 2 =
      \<lparr>id_msg = ''model-1700000000000'', role = model,
       text_msg = ''Sorry, I encountered an error.''\<rparr>"
    by (simp add: handleSendMessage_raises [OF ch] a rewrite_text_def greeting_def t)
  from a b show ?thesis by (simp add: submit_def)
qed

text \<open>
  C10, amended. When the stream fails after the chunks \<open>fs\<close>, nothing is rolled back. The
  store at the end is the store from before the submission, in which the records with
  the placeholder id have the error text, followed by the user record exactly as it was
  appended and by the placeholder with the error text. The same holds against the store
  in which the failure is caught (the state after the last chunk update, which is state
  number \<open>3 + length fs\<close> of the run and holds the accumulated text): only records
  with the placeholder id differ, and only in their text. Every earlier record with
  another id is unchanged, so all earlier records are unchanged when the placeholder id
  does not occur among them.
\<close>

theorem C10_failure_keeps_records:
  assumes "chat s = Some c"
  shows "messages (final_state s
        (handleSendMessage renders now1 now2 (Stream fs (Raises e)) userMessage s)) =
       rewrite_text (''model-'' @ toString now2) ''Sorry, I encountered an error.'' (messages s) @
       [\<lparr>id_msg = toString now1, role = user, text_msg = userMessage\<rparr>,
        \<lparr>id_msg = ''model-'' @ toString now2, role = model,
         text_msg = ''Sorry, I encountered an error.''\<rparr>] \<and>
     messages (states (handleSendMessage renders now1 now2 (Stream fs (Raises e)) userMessage s) !
        (3 + length fs)) =
       (if fs = [] then messages s
        else rewrite_text (''model-'' @ toString now2) (concat fs) (messages s)) @
       [\<lparr>id_msg = toString now1, role = user, text_msg = userMessage\<rparr>,
        \<lparr>id_msg = ''model-'' @ toString now2, role = model, text_msg = concat fs\<rparr>] \<and>
     messages (final_state s
        (handleSendMessage renders now1 now2 (Stream fs (Raises e)) userMessage s)) =
       rewrite_text (''model-'' @ toString now2) ''Sorry, I encountered an error.''
         (messages (states (handleSendMessage renders now1 now2 (Stream fs (Raises e)) userMessage s) !
            (3 + length fs))) \<and>
     (\<forall>i < length (messages s).
        id_msg (messages s ! i) \<noteq> ''model-'' @ toString now2 \<longrightarrow>
        messages (final_state s
          (handleSendMessage renders now1 now2 (Stream fs (Raises e)) userMessage s)) ! i =
          messages s ! i) \<and>
     (''model-'' @ toString now2 \<notin> id_msg ` set (messages s) \<longrightarrow>
        take (length (messages s)) (messages (final_state s
          (handleSendMessage renders now1 now2 (Stream fs (Raises e)) userMessage s))) = messages s)"
proof -
  let ?r = "handleSendMessage renders now1 now2 (Stream fs (Raises e)) userMessage s"
  let ?m = "''model-'' @ toString now2"
  let ?err = "''Sorry, I encountered an error.''"
  let ?u = "\<lparr>id_msg = toString now1, role = user, text_msg = userMessage\<rparr>"
  have fin: "messages (final_state s ?r) =
      rewrite_text ?m ?err (messages s) @ [?u, \<lparr>id_msg = ?m, role = model, text_msg = ?err\<rparr>]"
    by (simp add: handleSendMessage_raises [OF assms])
  note pre = handleSendMessage_before_failure [OF assms, of renders now1 now2 fs e userMessage]
  have same: "messages (final_state s ?r) =
      rewrite_text ?m ?err (messages (states ?r ! (3 + length fs)))"
    unfolding fin pre
    by (simp add: rewrite_text_append rewrite_text_again)
      (simp add: rewrite_text_def user_not_placeholder)
  have old: "messages (final_state s ?r) ! i = messages s ! i"
    if "i < length (messages s)" "id_msg (messages s ! i) \<noteq> ?m" for i
    using that by (simp add: fin nth_append rewrite_text_length rewrite_text_nth)
  have fresh: "take (length (messages s)) (messages (final_state s ?r)) = messages s"
    if "?m \<notin> id_msg ` set (messages s)"
    using that by (simp add: fin rewrite_text_length rewrite_text_absent)
  from fin pre same old fresh show ?thesis by blast
qed

theorem C10_failure_keeps_records_witness:
  "chat (final_state (bootstrapped (0::nat))
      (handleSendMessage [] 1700000000000 1700000000000 (Stream [''Hi''] Completes) ''A''
         (bootstrapped 0))) = Some 0 \<and>
   messages (final_state
      (final_state (bootstrapped (0::nat))
        (handleSendMessage [] 1700000000000 1700000000000 (Stream [''Hi''] Completes) ''A''
           (bootstrapped 0)))
      (handleSendMessage [] 1700000060000 1700000060000
         (Stream [''By''] (Raises (JsError ''network''))) ''B''
         (final_state (bootstrapped (0::nat))
           (handleSendMessage [] 1700000000000 1700000000000 (Stream [''Hi''] Completes) ''A''
              (bootstrapped 0))))) =
     [greeting,
      \<lparr>id_msg = ''1700000000000'', role = user, text_msg = ''A''\<rparr>,
      \<lparr>id_msg = ''model-1700000000000'', role = model, text_msg = ''Hi''\<rparr>,
      \<lparr>id_msg = ''1700000060000'', role = user, text_msg = ''B''\<rparr>,
      \<lparr>id_msg = ''model-1700000060000'', role = model,
       text_msg = ''Sorry, I encountered an error.''\<rparr>]"
proof -
  let ?sA = "final_state (bootstrapped (0::nat))
      (handleSendMessage [] 1700000000000 1700000000000 (Stream [''Hi''] Completes) ''A''
         (bootstrapped 0))"
  have t: "toString 1700000000000 = ''1700000000000''" "toString 1700000060000 = ''1700000060000''"
    by (simp_all add: toString_def digits.simps digit_def)
  have a: "messages ?sA =
      [greeting,
       \<lparr>id_msg = ''1700000000000'', role = user, text_msg = ''A''\<rparr>,
       \<lparr>id_msg = ''model-1700000000000'', role = model, text_msg = ''Hi''\<rparr>]"
    by (simp add: handleSendMessage_completes [OF bootstrapped_chat] bootstrapped_messages
        rewrite_text_def greeting_def t)
  have h: "chat ?sA = Some 0"
    by (simp add: handleSendMessage_chat bootstrapped_chat)
  from C10_failure_keeps_records [OF h, of "[]" 1700000060000 1700000060000 "[''By'']"
      "JsError ''network''" "''B''"]
  have "messages (final_state ?sA
      (handleSendMessage [] 1700000060000 1700000060000
         (Stream [''By''] (Raises (JsError ''network''))) ''B'' ?sA)) =
     rewrite_text (''model-'' @ toString 1700000060000) ''Sorry, I encountered an error.''
       (messages ?sA) @
     [\<lparr>id_msg = toString 1700000060000, role = user, text_msg = ''B''\<rparr>,
      \<lparr>id_msg = ''model-'' @ toString 1700000060000, role = model,
       text_msg = ''Sorry, I encountered an error.''\<rparr>]"
    by (rule conjunct1)
  with h show ?thesis
    by (simp add: a t rewrite_text_def greeting_def)
qed

end
